theory Spec2Isabelle
  imports Complex_Main "HOL-Library.Sublist"
begin

section \<open>Python values and exceptions\<close>

text \<open>
  The generator of \<^verbatim>\<open>giskard/llm/generators/base.py\<close> is a thin pipeline over Python
  library calls: \<^verbatim>\<open>str.format\<close>, \<^verbatim>\<open>str.join\<close>, \<^verbatim>\<open>json.loads\<close> and subscription
  \<^verbatim>\<open>data[key]\<close>. Python strings are modelled as \<open>string\<close>, read as the UTF-8 encoding of
  the text, so that concatenation of texts is concatenation of lists. A raised exception is
  a value of \<open>py_error\<close> on the left of a sum.
\<close>

datatype py_error =
    JSONDecodeError
  | KeyError string
  | TypeError
  | ValueError
  | IndexError
  | RecursionError
  | NotModelled
  | ClientError string
  | LLMGenerationError string py_error

text \<open>
  \<open>LLMGenerationError msg cause\<close> is \<^verbatim>\<open>raise LLMGenerationError(msg) from cause\<close>.
  \<open>ClientError\<close> stands for whatever the LLM client raises. \<open>NotModelled\<close> is returned where
  Python does something this development does not describe (format specifications,
  conversions, attributes other than the three of the model interface); no theorem
  below draws a conclusion from it.
\<close>

datatype pyval =
    PyNone
  | PyBool bool
  | PyInt int
  | PyFloat string
  | PyStr string
  | PyList "pyval list"
  | PyDict "(string \<times> pyval) list"

text \<open>
  \<open>PyFloat s\<close> is the float that Python's \<^verbatim>\<open>float(s)\<close> returns; the literal is kept and
  no floating-point arithmetic is done on it. \<open>PyDict\<close> lists the items of a \<^verbatim>\<open>dict\<close> in
  insertion order.
\<close>

fun dict_set :: "(string \<times> pyval) list \<Rightarrow> string \<Rightarrow> pyval \<Rightarrow> (string \<times> pyval) list" where
  "dict_set [] k v = [(k, v)]"
| "dict_set ((k', v') # d) k v = (if k' = k then (k', v) # d else (k', v') # dict_set d k v)"

definition dict_of_pairs :: "(string \<times> pyval) list \<Rightarrow> (string \<times> pyval) list" where
  "dict_of_pairs kvs = foldl (\<lambda>d (k, v). dict_set d k v) [] kvs"

text \<open>\<^verbatim>\<open>data[key]\<close> for a string key: only a \<^verbatim>\<open>dict\<close> can be subscripted by a string.\<close>

fun getitem :: "pyval \<Rightarrow> string \<Rightarrow> py_error + pyval" where
  "getitem (PyDict d) k = (case map_of d k of None \<Rightarrow> Inl (KeyError k) | Some v \<Rightarrow> Inr v)"
| "getitem _ k = Inl TypeError"

section \<open>The JSON decoder\<close>

text \<open>
  \<^verbatim>\<open>json.loads\<close> on a \<^verbatim>\<open>str\<close>, with the default (strict) decoder. Every syntax error is
  the one class \<^verbatim>\<open>JSONDecodeError\<close>; its message and position are not kept. The decoder
  also raises \<^verbatim>\<open>RecursionError\<close> and \<^verbatim>\<open>ValueError\<close>, at the two limits of the interpreter
  described below.
\<close>

definition is_ws :: "char \<Rightarrow> bool" where
  "is_ws c \<longleftrightarrow> c = CHR 0x20 \<or> c = CHR 0x09 \<or> c = CHR 0x0A \<or> c = CHR 0x0D"

definition skip_ws :: "string \<Rightarrow> string" where
  "skip_ws s = dropWhile is_ws s"

definition is_digit :: "char \<Rightarrow> bool" where
  "is_digit c \<longleftrightarrow> 48 \<le> (of_char c :: int) \<and> (of_char c :: int) \<le> 57"

definition digit_val :: "char \<Rightarrow> int" where
  "digit_val c = of_char c - 48"

definition int_of_digits :: "string \<Rightarrow> int" where
  "int_of_digits ds = foldl (\<lambda>n c. 10 * n + digit_val c) 0 ds"

definition hexval :: "char \<Rightarrow> int option" where
  "hexval c =
     (let n = (of_char c :: int) in
      if 48 \<le> n \<and> n \<le> 57 then Some (n - 48)
      else if 97 \<le> n \<and> n \<le> 102 then Some (n - 87)
      else if 65 \<le> n \<and> n \<le> 70 then Some (n - 55)
      else None)"

definition hex4 :: "char \<Rightarrow> char \<Rightarrow> char \<Rightarrow> char \<Rightarrow> int option" where
  "hex4 a b c d =
     (case (hexval a, hexval b, hexval c, hexval d) of
        (Some p, Some q, Some r, Some s) \<Rightarrow> Some (((p * 16 + q) * 16 + r) * 16 + s)
      | _ \<Rightarrow> None)"

text \<open>The UTF-8 bytes of a code point (a lone surrogate takes the three-byte form).\<close>

definition utf8 :: "int \<Rightarrow> string" where
  "utf8 n =
     (if n < 0x80 then [char_of n]
      else if n < 0x800 then [char_of (0xC0 + n div 64), char_of (0x80 + n mod 64)]
      else if n < 0x10000 then
        [char_of (0xE0 + n div 4096), char_of (0x80 + n div 64 mod 64), char_of (0x80 + n mod 64)]
      else
        [char_of (0xF0 + n div 262144), char_of (0x80 + n div 4096 mod 64),
         char_of (0x80 + n div 64 mod 64), char_of (0x80 + n mod 64)])"

definition unescape :: "char \<Rightarrow> char option" where
  "unescape e =
     (if e = CHR 0x22 then Some (CHR 0x22)
      else if e = CHR 0x5C then Some (CHR 0x5C)
      else if e = CHR ''/'' then Some (CHR ''/'')
      else if e = CHR ''b'' then Some (CHR 0x08)
      else if e = CHR ''f'' then Some (CHR 0x0C)
      else if e = CHR ''n'' then Some (CHR 0x0A)
      else if e = CHR ''r'' then Some (CHR 0x0D)
      else if e = CHR ''t'' then Some (CHR 0x09)
      else None)"

definition prepend :: "string \<Rightarrow> py_error + string \<times> string \<Rightarrow> py_error + string \<times> string" where
  "prepend p r = (case r of Inl e \<Rightarrow> Inl e | Inr (s, rest) \<Rightarrow> Inr (p @ s, rest))"

text \<open>
  \<open>read_escape\<close> decodes one escape, given the input after its backslash: the decoded
  text and the input after the escape. A high surrogate escape directly followed by a low
  surrogate escape is one code point.
\<close>

definition read_escape :: "string \<Rightarrow> (string \<times> string) option" where
  "read_escape s =
     (case s of
        [] \<Rightarrow> None
      | e # es \<Rightarrow>
          if e = CHR ''u'' then
            (case es of
               h1 # h2 # h3 # h4 # r \<Rightarrow>
                 (case hex4 h1 h2 h3 h4 of
                    None \<Rightarrow> None
                  | Some n \<Rightarrow>
                      if 0xD800 \<le> n \<and> n \<le> 0xDBFF then
                        (case r of
                           b # u # l1 # l2 # l3 # l4 # r' \<Rightarrow>
                             if b = CHR 0x5C \<and> u = CHR ''u'' then
                               (case hex4 l1 l2 l3 l4 of
                                  None \<Rightarrow> None
                                | Some m \<Rightarrow>
                                    if 0xDC00 \<le> m \<and> m \<le> 0xDFFF
                                    then Some (utf8 (0x10000 + (n - 0xD800) * 1024 + (m - 0xDC00)), r')
                                    else Some (utf8 n, r))
                             else Some (utf8 n, r)
                         | _ \<Rightarrow> Some (utf8 n, r))
                      else Some (utf8 n, r))
             | _ \<Rightarrow> None)
          else (case unescape e of None \<Rightarrow> None | Some ch \<Rightarrow> Some ([ch], es)))"

text \<open>
  \<open>scanstring\<close> reads a string body after its opening quote and returns the decoded text
  and the input after the closing quote.
\<close>

function scanstring :: "string \<Rightarrow> py_error + string \<times> string" where
  "scanstring [] = Inl JSONDecodeError"
| "scanstring (c # cs) =
     (if c = CHR 0x22 then Inr ([], cs)
      else if c = CHR 0x5C then
        (case read_escape cs of
           None \<Rightarrow> Inl JSONDecodeError
         | Some (p, rest) \<Rightarrow> prepend p (scanstring rest))
      else if (of_char c :: int) \<le> 0x1F then Inl JSONDecodeError
      else prepend [c] (scanstring cs))"
  by pat_completeness auto
termination
  by (relation "measure length")
     (auto simp: read_escape_def split: list.splits if_splits option.splits)

text \<open>
  A number is \<^verbatim>\<open>-?(0|[1-9][0-9]*)(\.[0-9]+)?([eE][-+]?[0-9]+)?\<close>, matched as far as it goes.
  With a fraction or an exponent it is a float, otherwise an int.
\<close>

definition match_frac :: "string \<Rightarrow> string \<times> string" where
  "match_frac s =
     (case s of
        p # d # r \<Rightarrow>
          if p = CHR ''.'' \<and> is_digit d
          then (p # takeWhile is_digit (d # r), dropWhile is_digit (d # r))
          else ([], s)
      | _ \<Rightarrow> ([], s))"

definition match_exp :: "string \<Rightarrow> string \<times> string" where
  "match_exp s =
     (case s of
        e # r \<Rightarrow>
          if e = CHR ''e'' \<or> e = CHR ''E'' then
            (let (sg, r') =
                   (case r of
                      g # t \<Rightarrow> if g = CHR ''-'' \<or> g = CHR ''+'' then ([g], t) else ([], r)
                    | [] \<Rightarrow> ([], r))
             in if takeWhile is_digit r' = [] then ([], s)
                else (e # sg @ takeWhile is_digit r', dropWhile is_digit r'))
          else ([], s)
      | [] \<Rightarrow> ([], s))"

definition match_int :: "string \<Rightarrow> (string \<times> string) option" where
  "match_int s =
     (case s of
        [] \<Rightarrow> None
      | c # r \<Rightarrow>
          if c = CHR ''0'' then Some ([c], r)
          else if is_digit c then Some (takeWhile is_digit s, dropWhile is_digit s)
          else None)"

definition match_number :: "string \<Rightarrow> (bool \<times> string \<times> string \<times> string \<times> string) option" where
  "match_number s =
     (let (neg, s1) = (case s of c # r \<Rightarrow> if c = CHR ''-'' then (True, r) else (False, s) | [] \<Rightarrow> (False, s))
      in case match_int s1 of
           None \<Rightarrow> None
         | Some (ip, r1) \<Rightarrow>
             (let (fp, r2) = match_frac r1; (ep, r3) = match_exp r2
              in Some (neg, ip, fp, ep, r3)))"

text \<open>
  The interpreter sets two limits that the decoder meets. \<open>recursion_limit\<close> is the number
  of nested calls the interpreter still allows when \<^verbatim>\<open>json.loads\<close> is called; the decoder
  uses one for each array or object it enters, empty ones included, and gives it back when
  it leaves. \<open>int_max_str_digits\<close> is the number of digits of a decimal text that \<^verbatim>\<open>int\<close>
  converts (\<^verbatim>\<open>sys.set_int_max_str_digits\<close>); 0 switches the limit off, as on an interpreter
  without it.
\<close>

record interpreter =
  recursion_limit :: nat
  int_max_str_digits :: nat

text \<open>
  The settings of a fresh interpreter: \<^verbatim>\<open>sys.getrecursionlimit()\<close> is 1000, of which the
  callers of \<^verbatim>\<open>json.loads\<close> have used a part, so that 1000 is more than the decoder really
  has; \<^verbatim>\<open>sys.get_int_max_str_digits()\<close> is 4300.
\<close>

definition default_interpreter :: interpreter where
  "default_interpreter = \<lparr>recursion_limit = 1000, int_max_str_digits = 4300\<rparr>"

text \<open>
  The value of a matched number: \<^verbatim>\<open>int(integer)\<close> when there is neither fraction nor
  exponent, which raises \<^verbatim>\<open>ValueError\<close> on more digits than the interpreter converts, and
  \<^verbatim>\<open>float(integer + frac + exp)\<close> otherwise.
\<close>

definition number_value :: "nat \<Rightarrow> bool \<Rightarrow> string \<Rightarrow> string \<Rightarrow> string \<Rightarrow> py_error + pyval" where
  "number_value max_digits neg ip fp ep =
     (if fp = [] \<and> ep = [] then
        (if max_digits \<noteq> 0 \<and> max_digits < length ip then Inl ValueError
         else Inr (PyInt (if neg then - int_of_digits ip else int_of_digits ip)))
      else Inr (PyFloat ((if neg then ''-'' else []) @ ip @ fp @ ep)))"

text \<open>A named constant or a number at the head of the input.\<close>

definition scan_scalar :: "nat \<Rightarrow> string \<Rightarrow> py_error + pyval \<times> string" where
  "scan_scalar m s =
     (if prefix ''null'' s then Inr (PyNone, drop 4 s)
      else if prefix ''true'' s then Inr (PyBool True, drop 4 s)
      else if prefix ''false'' s then Inr (PyBool False, drop 5 s)
      else if prefix ''NaN'' s then Inr (PyFloat ''NaN'', drop 3 s)
      else if prefix ''Infinity'' s then Inr (PyFloat ''Infinity'', drop 8 s)
      else if prefix ''-Infinity'' s then Inr (PyFloat ''-Infinity'', drop 9 s)
      else (case match_number s of
              None \<Rightarrow> Inl JSONDecodeError
            | Some (neg, ip, fp, ep, r) \<Rightarrow>
                (case number_value m neg ip fp ep of Inl e \<Rightarrow> Inl e | Inr v \<Rightarrow> Inr (v, r))))"

text \<open>
  \<open>scan_once m d s\<close> decodes one value at the head of \<open>s\<close>, with \<open>m\<close> the limit on the digits
  of an int and \<open>d\<close> the number of nested calls still allowed: an opening bracket met with
  none left is Python's \<^verbatim>\<open>RecursionError\<close>. \<open>parse_array\<close> and \<open>parse_object\<close> read the items
  after the opening bracket, with the white space before the first item already skipped;
  they are the \<^verbatim>\<open>while\<close> statements of the decoder, written as recursion on the input
  that is left. The three tests \<open>length \<dots> < length s\<close> say that the input left is shorter than the
  input the statement began with; they are what makes the recursion well-founded and they never
  fail (\<open>parse_array_unfold\<close> and \<open>parse_object_unfold\<close> below are the same equations
  without them).
\<close>

function scan_once :: "nat \<Rightarrow> nat \<Rightarrow> string \<Rightarrow> py_error + pyval \<times> string"
  and parse_array :: "nat \<Rightarrow> nat \<Rightarrow> string \<Rightarrow> py_error + pyval list \<times> string"
  and parse_object :: "nat \<Rightarrow> nat \<Rightarrow> string \<Rightarrow> py_error + (string \<times> pyval) list \<times> string"
where
  "scan_once m d [] = Inl JSONDecodeError"
| "scan_once m d (c # r) =
     (if c = CHR 0x22 then
        (case scanstring r of Inl e \<Rightarrow> Inl e | Inr (s, r') \<Rightarrow> Inr (PyStr s, r'))
      else if c = CHR 0x7B then
        (case d of
           0 \<Rightarrow> Inl RecursionError
         | Suc d' \<Rightarrow>
             (case skip_ws r of
                [] \<Rightarrow> Inl JSONDecodeError
              | c' # r' \<Rightarrow>
                  if c' = CHR 0x7D then Inr (PyDict [], r')
                  else (case parse_object m d' (c' # r') of
                          Inl e \<Rightarrow> Inl e
                        | Inr (kvs, r'') \<Rightarrow> Inr (PyDict (dict_of_pairs kvs), r''))))
      else if c = CHR 0x5B then
        (case d of
           0 \<Rightarrow> Inl RecursionError
         | Suc d' \<Rightarrow>
             (case skip_ws r of
                [] \<Rightarrow> Inl JSONDecodeError
              | c' # r' \<Rightarrow>
                  if c' = CHR 0x5D then Inr (PyList [], r')
                  else (case parse_array m d' (c' # r') of
                          Inl e \<Rightarrow> Inl e
                        | Inr (vs, r'') \<Rightarrow> Inr (PyList vs, r''))))
      else scan_scalar m (c # r))"
| "parse_array m d s =
     (case scan_once m d s of
        Inl e \<Rightarrow> Inl e
      | Inr (v, r) \<Rightarrow>
          (case skip_ws r of
             [] \<Rightarrow> Inl JSONDecodeError
           | c # r' \<Rightarrow>
               if c = CHR 0x5D then Inr ([v], r')
               else if c = CHR '','' then
                 (if length (skip_ws r') < length s then
                    (case parse_array m d (skip_ws r') of
                       Inl e \<Rightarrow> Inl e
                     | Inr (vs, r'') \<Rightarrow> Inr (v # vs, r''))
                  else Inl JSONDecodeError)
               else Inl JSONDecodeError))"
| "parse_object m d s =
     (case s of
        [] \<Rightarrow> Inl JSONDecodeError
      | q # r \<Rightarrow>
          if q \<noteq> CHR 0x22 then Inl JSONDecodeError
          else
            (case scanstring r of
               Inl e \<Rightarrow> Inl e
             | Inr (k, r1) \<Rightarrow>
                 (case skip_ws r1 of
                    [] \<Rightarrow> Inl JSONDecodeError
                  | c # r2 \<Rightarrow>
                      if c \<noteq> CHR '':'' then Inl JSONDecodeError
                      else if length (skip_ws r2) < length s then
                        (case scan_once m d (skip_ws r2) of
                           Inl e \<Rightarrow> Inl e
                         | Inr (v, r3) \<Rightarrow>
                             (case skip_ws r3 of
                                [] \<Rightarrow> Inl JSONDecodeError
                              | e # r4 \<Rightarrow>
                                  if e = CHR 0x7D then Inr ([(k, v)], r4)
                                  else if e = CHR '','' then
                                    (if length (skip_ws r4) < length s then
                                       (case parse_object m d (skip_ws r4) of
                                          Inl e \<Rightarrow> Inl e
                                        | Inr (kvs, r5) \<Rightarrow> Inr ((k, v) # kvs, r5))
                                     else Inl JSONDecodeError)
                                  else Inl JSONDecodeError))
                      else Inl JSONDecodeError)))"
  by pat_completeness auto
termination
  apply (relation "measure (\<lambda>x. case x of
                   Inl (m, d, s) \<Rightarrow> 2 * length s
                 | Inr (Inl (m, d, s)) \<Rightarrow> 2 * length s + 1
                 | Inr (Inr (m, d, s)) \<Rightarrow> 2 * length s + 1)")
  apply (auto simp: skip_ws_def dest!: arg_cong [where f = length])
  subgoal for r using length_dropWhile_le [of is_ws r] by simp
  subgoal for r using length_dropWhile_le [of is_ws r] by simp
  done

text \<open>
  \<^verbatim>\<open>json.loads(s)\<close> for a \<^verbatim>\<open>str\<close>: a leading byte order mark is refused, one value is decoded
  after leading white space and only white space may follow it.
\<close>

definition json_loads :: "interpreter \<Rightarrow> string \<Rightarrow> py_error + pyval" where
  "json_loads py s =
     (if prefix [CHR 0xEF, CHR 0xBB, CHR 0xBF] s then Inl JSONDecodeError
      else
        (case scan_once (int_max_str_digits py) (recursion_limit py) (skip_ws s) of
           Inl e \<Rightarrow> Inl e
         | Inr (v, r) \<Rightarrow> if skip_ws r = [] then Inr v else Inl JSONDecodeError))"

section \<open>Template rendering\<close>

text \<open>\<^verbatim>\<open>sep.join(xs)\<close> and \<^verbatim>\<open>str(i)\<close> for an int.\<close>

fun join :: "string \<Rightarrow> string list \<Rightarrow> string" where
  "join sep [] = []"
| "join sep [x] = x"
| "join sep (x # y # ys) = x @ sep @ join sep (y # ys)"

function str_of_nat :: "int \<Rightarrow> string" where
  "str_of_nat i = (if i < 10 then [char_of (48 + i)] else str_of_nat (i div 10) @ [char_of (48 + i mod 10)])"
  by pat_completeness auto
termination
  by (relation "measure nat") auto

definition str_of_int :: "int \<Rightarrow> string" where
  "str_of_int i = (if i < 0 then CHR ''-'' # str_of_nat (- i) else str_of_nat i)"

text \<open>
  Modelled from the spec: the target model's metadata object (its class is not in this
  file of the repository) exposes a name, a description and a sequence of feature names.
\<close>

record base_model =
  name :: string
  description :: string
  feature_names :: "string list"

text \<open>
  The values \<^verbatim>\<open>str.format\<close> is called with: the model object, the int \<^verbatim>\<open>num_samples\<close> and
  the joined languages; \<open>FList\<close> is a list of strings reached through an attribute.
\<close>

datatype fval = FStr string | FInt int | FList "string list" | FObj base_model

fun getattr :: "fval \<Rightarrow> string \<Rightarrow> py_error + fval" where
  "getattr (FObj m) a =
     (if a = ''name'' then Inr (FStr (name m))
      else if a = ''description'' then Inr (FStr (description m))
      else if a = ''feature_names'' then Inr (FList (feature_names m))
      else Inl NotModelled)"
| "getattr _ a = Inl NotModelled"

text \<open>
  \<^verbatim>\<open>format(v, "")\<close>. A list of strings is rendered with \<^verbatim>\<open>repr\<close> of each item, given here
  for items of printable ASCII without quote or backslash, where it is the item in single
  quotes. The text of the model object itself is not described.
\<close>

definition plain_char :: "char \<Rightarrow> bool" where
  "plain_char c \<longleftrightarrow> 32 \<le> (of_char c :: int) \<and> (of_char c :: int) \<le> 126 \<and> c \<noteq> CHR 0x27 \<and> c \<noteq> CHR 0x5C"

fun format_value :: "fval \<Rightarrow> py_error + string" where
  "format_value (FStr s) = Inr s"
| "format_value (FInt i) = Inr (str_of_int i)"
| "format_value (FList xs) =
     (if list_all (list_all plain_char) xs
      then Inr (''['' @ join '', '' (map (\<lambda>x. [CHR 0x27] @ x @ [CHR 0x27]) xs) @ '']'')
      else Inl NotModelled)"
| "format_value (FObj m) = Inl NotModelled"

text \<open>
  A replacement field \<^verbatim>\<open>{arg.attr.attr}\<close>. The argument name is looked up among the keyword
  arguments (a \<^verbatim>\<open>KeyError\<close> if absent); an empty or numeric name is positional, and
  \<^verbatim>\<open>format\<close> is called with no positional argument (an \<^verbatim>\<open>IndexError\<close>). Then the attributes
  are taken in turn.
\<close>

fun split_dots :: "string \<Rightarrow> string \<Rightarrow> string list" where
  "split_dots acc [] = [rev acc]"
| "split_dots acc (c # cs) = (if c = CHR ''.'' then rev acc # split_dots [] cs else split_dots (c # acc) cs)"

fun getattrs :: "fval \<Rightarrow> string list \<Rightarrow> py_error + fval" where
  "getattrs v [] = Inr v"
| "getattrs v (a # as) =
     (if a = [] then Inl ValueError
      else (case getattr v a of Inl e \<Rightarrow> Inl e | Inr v' \<Rightarrow> getattrs v' as))"

definition render_field :: "(string \<times> fval) list \<Rightarrow> string \<Rightarrow> py_error + string" where
  "render_field kwargs field =
     (case split_dots [] field of
        [] \<Rightarrow> Inl ValueError
      | arg # attrs \<Rightarrow>
          if list_all is_digit arg then (if length arg \<le> 9 then Inl IndexError else Inl NotModelled)
          else
            (case map_of kwargs arg of
               None \<Rightarrow> Inl (KeyError arg)
             | Some v \<Rightarrow> (case getattrs v attrs of Inl e \<Rightarrow> Inl e | Inr v' \<Rightarrow> format_value v')))"

definition prepend_text :: "string \<Rightarrow> py_error + string \<Rightarrow> py_error + string" where
  "prepend_text p r = (case r of Inl e \<Rightarrow> Inl e | Inr s \<Rightarrow> Inr (p @ s))"

text \<open>
  \<^verbatim>\<open>template.format(**kwargs)\<close>, read from left to right: \<open>format_text\<close> copies literal text
  (\<^verbatim>\<open>{{\<close> and \<^verbatim>\<open>}}\<close> are a brace), \<open>format_field\<close> collects a field up to its closing brace,
  renders it and goes on. A conversion (\<^verbatim>\<open>!\<close>), a format specification (\<^verbatim>\<open>:\<close>), an index
  (\<^verbatim>\<open>[\<close>) or a non-ASCII character in a field is \<open>NotModelled\<close>.
\<close>

fun format_text :: "(string \<times> fval) list \<Rightarrow> string \<Rightarrow> py_error + string"
  and format_field :: "(string \<times> fval) list \<Rightarrow> string \<Rightarrow> string \<Rightarrow> py_error + string"
where
  "format_text kwargs [] = Inr []"
| "format_text kwargs (c # cs) =
     (if c = CHR 0x7B then
        (case cs of
           [] \<Rightarrow> Inl ValueError
         | d # ds \<Rightarrow> if d = CHR 0x7B then prepend_text [CHR 0x7B] (format_text kwargs ds)
                    else format_field kwargs [] cs)
      else if c = CHR 0x7D then
        (case cs of
           [] \<Rightarrow> Inl ValueError
         | d # ds \<Rightarrow> if d = CHR 0x7D then prepend_text [CHR 0x7D] (format_text kwargs ds)
                    else Inl ValueError)
      else prepend_text [c] (format_text kwargs cs))"
| "format_field kwargs acc [] = Inl ValueError"
| "format_field kwargs acc (c # cs) =
     (if c = CHR 0x7D then
        (case render_field kwargs (rev acc) of
           Inl e \<Rightarrow> Inl e
         | Inr v \<Rightarrow> prepend_text v (format_text kwargs cs))
      else if c = CHR ''!'' \<or> c = CHR '':'' \<or> c = CHR 0x5B \<or> 128 \<le> (of_char c :: int) then Inl NotModelled
      else if c = CHR 0x7B then Inl ValueError
      else format_field kwargs (c # acc) cs)"

definition str_format :: "string \<Rightarrow> (string \<times> fval) list \<Rightarrow> py_error + string" where
  "str_format template kwargs = format_text kwargs template"

section \<open>The generator\<close>

record chat_message =
  role :: string
  content :: string

text \<open>The keyword arguments of one \<^verbatim>\<open>llm_client.complete\<close> call.\<close>

record completion_call =
  messages :: "chat_message list"
  temperature :: real
  caller_id :: string
  seed :: int
  format :: string

type_synonym llm_client = "completion_call \<Rightarrow> py_error + chat_message"

text \<open>
  The prefix messages are annotated \<^verbatim>\<open>Optional[Sequence[ChatMessage]]\<close>. A sequence of
  objects is a list or a tuple; the two differ in what \<^verbatim>\<open>+\<close> accepts: a list is concatenated
  with a list, and a tuple with a list raises \<^verbatim>\<open>TypeError\<close>.
\<close>

datatype 'a pyseq = ListSeq "'a list" | TupleSeq "'a list"

fun seq_items :: "'a pyseq \<Rightarrow> 'a list" where
  "seq_items (ListSeq xs) = xs"
| "seq_items (TupleSeq xs) = xs"

text \<open>\<^verbatim>\<open>s + ys\<close> for a sequence \<open>s\<close> and a list \<open>ys\<close>.\<close>

fun seq_add_list :: "'a pyseq \<Rightarrow> 'a list \<Rightarrow> py_error + 'a list" where
  "seq_add_list (ListSeq xs) ys = Inr (xs @ ys)"
| "seq_add_list (TupleSeq xs) ys = Inl TypeError"

text \<open>
  \<^verbatim>\<open>_BaseLLMGenerator\<close>: the four attributes its \<^verbatim>\<open>__init__\<close> sets, the class attribute
  \<^verbatim>\<open>_output_key\<close> and the name of the class of the instance. \<^verbatim>\<open>LLMBasedDataGenerator\<close>
  extends it with the prompt and the prefix messages.
\<close>

record base_llm_generator =
  languages :: "string list"
  llm_temperature :: real
  llm_client :: llm_client
  llm_seed :: int
  output_key :: string
  class_name :: string

record llm_based_data_generator = base_llm_generator +
  prompt :: string
  prefix_messages :: "chat_message pyseq"

definition default_temperature :: real where
  "default_temperature = 0.5"

text \<open>\<^verbatim>\<open>x or d\<close> for an optional list: \<^verbatim>\<open>None\<close> and the empty list are falsy.\<close>

definition or_list :: "'a list option \<Rightarrow> 'a list \<Rightarrow> 'a list" where
  "or_list x d = (case x of None \<Rightarrow> d | Some xs \<Rightarrow> if xs = [] then d else xs)"

text \<open>\<^verbatim>\<open>x or []\<close> for an optional sequence: \<^verbatim>\<open>None\<close>, the empty list and the empty tuple are falsy.\<close>

definition or_empty_list :: "'a pyseq option \<Rightarrow> 'a pyseq" where
  "or_empty_list x = (case x of None \<Rightarrow> ListSeq [] | Some s \<Rightarrow> if seq_items s = [] then ListSeq [] else s)"

text \<open>
  \<^verbatim>\<open>_BaseLLMGenerator.__init__\<close>. An argument left out is \<open>None\<close>; \<open>get_default_client\<close> is
  the client that \<^verbatim>\<open>get_default_client()\<close> returns, and \<open>cls\<close> the name of the class being
  instantiated.
\<close>

definition base_llm_generator_init ::
  "string \<Rightarrow> llm_client \<Rightarrow> string list option \<Rightarrow> real option \<Rightarrow> llm_client option \<Rightarrow> int option
     \<Rightarrow> base_llm_generator" where
  "base_llm_generator_init cls get_default_client languages' llm_temperature' llm_client' llm_seed' =
     \<lparr> languages = or_list languages' [''en''],
       llm_temperature = (case llm_temperature' of None \<Rightarrow> default_temperature | Some t \<Rightarrow> t),
       llm_client = (case llm_client' of None \<Rightarrow> get_default_client | Some c \<Rightarrow> c),
       llm_seed = (case llm_seed' of None \<Rightarrow> 1729 | Some s \<Rightarrow> s),
       output_key = ''inputs'',
       class_name = cls \<rparr>"

text \<open>
  \<^verbatim>\<open>LLMBasedDataGenerator.__init__\<close>: the base initialiser runs without languages, then the
  three attributes of the subclass are set.
\<close>

definition llm_based_data_generator_init ::
  "llm_client \<Rightarrow> string \<Rightarrow> chat_message pyseq option \<Rightarrow> string list option \<Rightarrow> real option
     \<Rightarrow> llm_client option \<Rightarrow> int option \<Rightarrow> llm_based_data_generator" where
  "llm_based_data_generator_init get_default_client prompt' prefix_messages' languages' llm_temperature'
       llm_client' llm_seed' =
     (let self = base_llm_generator.extend
                   (base_llm_generator_init ''LLMBasedDataGenerator'' get_default_client None
                      llm_temperature' llm_client' llm_seed')
                   (llm_based_data_generator.fields prompt' (or_empty_list prefix_messages'))
      in self\<lparr>languages := or_list languages' [''en'']\<rparr>)"

text \<open>
  \<^verbatim>\<open>LLMBasedDataGenerator._format_messages\<close>: the prompt is rendered first, then the list of
  the one user message is added to the prefix messages.
\<close>

definition format_messages ::
  "llm_based_data_generator \<Rightarrow> base_model \<Rightarrow> int \<Rightarrow> (string \<times> string) list option
     \<Rightarrow> py_error + chat_message list" where
  "format_messages self model num_samples column_types =
     (case str_format (prompt self)
             [(''model'', FObj model), (''num_samples'', FInt num_samples),
              (''languages'', FStr (join '', '' (languages self)))] of
        Inl e \<Rightarrow> Inl e
      | Inr p \<Rightarrow> seq_add_list (prefix_messages self) [\<lparr>role = ''user'', content = p\<rparr>])"

text \<open>
  \<^verbatim>\<open>_parse_output\<close>, run by the interpreter \<open>py\<close>. The \<^verbatim>\<open>except\<close> clause names
  \<^verbatim>\<open>JSONDecodeError\<close> and \<^verbatim>\<open>KeyError\<close>; any other exception leaves the \<^verbatim>\<open>try\<close> block as it is.
\<close>

fun caught :: "py_error \<Rightarrow> bool" where
  "caught JSONDecodeError = True"
| "caught (KeyError k) = True"
| "caught _ = False"

definition wrap :: "py_error \<Rightarrow> py_error" where
  "wrap err = (if caught err then LLMGenerationError ''Could not parse generated data'' err else err)"

definition parse_output ::
  "interpreter \<Rightarrow> 'a base_llm_generator_scheme \<Rightarrow> chat_message \<Rightarrow> py_error + pyval" where
  "parse_output py self raw_output =
     (case json_loads py (content raw_output) of
        Inl err \<Rightarrow> Inl (wrap err)
      | Inr data \<Rightarrow>
          if output_key self \<noteq> [] then
            (case getitem data (output_key self) of
               Inl err \<Rightarrow> Inl (wrap err)
             | Inr data' \<Rightarrow> Inr data')
          else Inr data)"

definition make_dataset_name :: "base_model \<Rightarrow> string" where
  "make_dataset_name model = ''Synthetic Test Dataset for '' @ name model"

text \<open>
  The pandas frame and the \<^verbatim>\<open>Dataset\<close> are collaborators outside the repository: a frame
  is represented by the data \<^verbatim>\<open>pd.DataFrame\<close> was called with and a dataset by the arguments
  of its constructor. What these constructors do with their arguments, and whether they
  reject them, is not described.
\<close>

datatype dataframe = DataFrame pyval

record dataset =
  df :: dataframe
  name :: string
  validation :: bool
  column_types :: "(string \<times> string) list option"

text \<open>
  \<^verbatim>\<open>_BaseLLMGenerator.generate_dataset\<close>, run by the interpreter \<open>py\<close>. The abstract method
  \<^verbatim>\<open>_format_messages\<close> of the subclass is the second argument. The result comes with the list
  of the calls made to the client, in order.
\<close>

definition generate_dataset ::
  "interpreter
     \<Rightarrow> ('a base_llm_generator_scheme \<Rightarrow> base_model \<Rightarrow> int \<Rightarrow> (string \<times> string) list option
      \<Rightarrow> py_error + chat_message list)
     \<Rightarrow> 'a base_llm_generator_scheme \<Rightarrow> base_model \<Rightarrow> int \<Rightarrow> (string \<times> string) list option
     \<Rightarrow> (py_error + dataset) \<times> completion_call list" where
  "generate_dataset py fmt_messages self model num_samples column_types' =
     (case fmt_messages self model num_samples column_types' of
        Inl e \<Rightarrow> (Inl e, [])
      | Inr msgs \<Rightarrow>
          (let call = \<lparr> messages = msgs, temperature = llm_temperature self,
                        caller_id = class_name self, seed = llm_seed self, format = ''json'' \<rparr>
           in case llm_client self call of
                Inl e \<Rightarrow> (Inl e, [call])
              | Inr out \<Rightarrow>
                  (case parse_output py self out of
                     Inl e \<Rightarrow> (Inl e, [call])
                   | Inr generated \<Rightarrow>
                       (Inr \<lparr> df = DataFrame generated, name = make_dataset_name model,
                              validation = False, column_types = column_types' \<rparr>, [call]))))"

section \<open>Example inputs\<close>

text \<open>A client stub that answers every call with the same text.\<close>

definition stub_client :: "string \<Rightarrow> llm_client" where
  "stub_client text call = Inr \<lparr>role = ''assistant'', content = text\<rparr>"

definition loan_model :: base_model where
  "loan_model = \<lparr>base_model.name = ''Loan Approval'', description = ''Approves loans'',
                  feature_names = [''income'', ''age'']\<rparr>"

definition loan_generator :: "string \<Rightarrow> llm_based_data_generator" where
  "loan_generator text =
     llm_based_data_generator_init (stub_client []) ''Generate {num_samples} inputs for {model.name}.''
       None None None (Some (stub_client text)) None"

definition topic_generator :: llm_based_data_generator where
  "topic_generator =
     llm_based_data_generator_init (stub_client []) ''About {topic}'' None None None None None"

definition bilingual_generator :: llm_based_data_generator where
  "bilingual_generator =
     llm_based_data_generator_init (stub_client []) ''Generate {num_samples} inputs for {model.name}.''
       None (Some [''en'', ''fr'']) None None None"

text \<open>A generator whose prefix messages are given as a tuple, and the same with a list.\<close>

definition system_message :: chat_message where
  "system_message = \<lparr>role = ''system'', content = ''You audit models.''\<rparr>"

definition tuple_prefix_generator :: llm_based_data_generator where
  \<open>tuple_prefix_generator =
     llm_based_data_generator_init (stub_client ''{"inputs": []}'') ''{num_samples} inputs in {languages}''
       (Some (TupleSeq [system_message])) (Some [''en'', ''fr'']) None None None\<close>

definition list_prefix_generator :: llm_based_data_generator where
  \<open>list_prefix_generator =
     llm_based_data_generator_init (stub_client ''{"inputs": []}'') ''{num_samples} inputs in {languages}''
       (Some (ListSeq [system_message])) (Some [''en'', ''fr'']) None None None\<close>

section \<open>Templates as pieces\<close>

text \<open>
  To speak of the placeholders of a template, a template is also given as a list of
  pieces, literal text and replacement fields; \<open>template_of\<close> writes the pieces as the
  template text (a brace of literal text is doubled). A field is plain when it has no
  brace, conversion, format specification, index or non-ASCII character.
  \<open>render_pieces\<close> is the substitution the specification describes: each field replaced by
  its value, the first field without one being the error.
\<close>

datatype piece = Lit string | Field string

definition escape_braces :: "string \<Rightarrow> string" where
  "escape_braces s =
     concat (map (\<lambda>c. if c = CHR 0x7B then [c, c] else if c = CHR 0x7D then [c, c] else [c]) s)"

fun template_of :: "piece list \<Rightarrow> string" where
  "template_of [] = []"
| "template_of (Lit s # ps) = escape_braces s @ template_of ps"
| "template_of (Field f # ps) = [CHR 0x7B] @ f @ [CHR 0x7D] @ template_of ps"

definition field_char :: "char \<Rightarrow> bool" where
  "field_char c \<longleftrightarrow>
     c \<noteq> CHR 0x7B \<and> c \<noteq> CHR 0x7D \<and> c \<noteq> CHR ''!'' \<and> c \<noteq> CHR '':'' \<and> c \<noteq> CHR 0x5B
     \<and> (of_char c :: int) < 128"

fun plain_piece :: "piece \<Rightarrow> bool" where
  "plain_piece (Lit s) = True"
| "plain_piece (Field f) = list_all field_char f"

fun render_pieces :: "(string \<times> fval) list \<Rightarrow> piece list \<Rightarrow> py_error + string" where
  "render_pieces kwargs [] = Inr []"
| "render_pieces kwargs (Lit s # ps) = prepend_text s (render_pieces kwargs ps)"
| "render_pieces kwargs (Field f # ps) =
     (case render_field kwargs f of
        Inl e \<Rightarrow> Inl e
      | Inr v \<Rightarrow> prepend_text v (render_pieces kwargs ps))"

text \<open>The argument name of a field, and the keyword arguments \<^verbatim>\<open>_format_messages\<close> supplies.\<close>

definition arg_name :: "string \<Rightarrow> string" where
  "arg_name f = takeWhile (\<lambda>c. c \<noteq> CHR ''.'') f"

definition format_kwargs :: "llm_based_data_generator \<Rightarrow> base_model \<Rightarrow> int \<Rightarrow> (string \<times> fval) list" where
  "format_kwargs self model num_samples =
     [(''model'', FObj model), (''num_samples'', FInt num_samples),
      (''languages'', FStr (join '', '' (languages self)))]"

fun unsupplied :: "(string \<times> fval) list \<Rightarrow> piece \<Rightarrow> bool" where
  "unsupplied kwargs (Lit s) = False"
| "unsupplied kwargs (Field f) = (map_of kwargs (arg_name f) = None)"

fun piece_value :: "(string \<times> fval) list \<Rightarrow> piece \<Rightarrow> string option" where
  "piece_value kwargs (Lit s) = Some s"
| "piece_value kwargs (Field f) = (case render_field kwargs f of Inl e \<Rightarrow> None | Inr v \<Rightarrow> Some v)"

fun names_languages :: "piece \<Rightarrow> bool" where
  "names_languages (Lit s) = False"
| "names_languages (Field f) = (arg_name f = ''languages'')"

text \<open>\<^verbatim>\<open>sub in s\<close>, and the module constant with the multi-language clause.\<close>

fun contains :: "string \<Rightarrow> string \<Rightarrow> bool" where
  "contains [] sub = (sub = [])"
| "contains (c # cs) sub = (prefix sub (c # cs) \<or> contains cs sub)"

definition LANGUAGE_REQUIREMENT_PROMPT :: string where
  "LANGUAGE_REQUIREMENT_PROMPT =
     ''You must generate input using different languages among the following list: {languages}.''"

definition loan_pieces :: "piece list" where
  "loan_pieces = [Lit ''Generate '', Field ''num_samples'', Lit '' inputs for '', Field ''model.name'', Lit ''.'']"

section \<open>JSON texts\<close>

text \<open>
  What the specification calls well-formed JSON is the grammar of RFC 8259. A text of
  that grammar is given here by its syntax tree, which keeps the layout: the white space
  around each element, the way each character of a string is written and the digits of
  each number. \<open>text_of\<close> writes the tree as text and \<open>value_of\<close> is the Python value the
  text stands for. None of these definitions uses the decoder.
\<close>

definition json_ws :: "string \<Rightarrow> bool" where
  "json_ws w \<longleftrightarrow> list_all (\<lambda>c. c \<in> set [CHR 0x20, CHR 0x09, CHR 0x0A, CHR 0x0D]) w"

definition digit_table :: "(char \<times> int) list" where
  "digit_table =
     [(CHR ''0'', 0), (CHR ''1'', 1), (CHR ''2'', 2), (CHR ''3'', 3), (CHR ''4'', 4),
      (CHR ''5'', 5), (CHR ''6'', 6), (CHR ''7'', 7), (CHR ''8'', 8), (CHR ''9'', 9)]"

definition hex_table :: "(char \<times> int) list" where
  "hex_table =
     digit_table @
     [(CHR ''a'', 10), (CHR ''b'', 11), (CHR ''c'', 12), (CHR ''d'', 13), (CHR ''e'', 14), (CHR ''f'', 15),
      (CHR ''A'', 10), (CHR ''B'', 11), (CHR ''C'', 12), (CHR ''D'', 13), (CHR ''E'', 14), (CHR ''F'', 15)]"

text \<open>The character after the backslash of a two-character escape, and what it stands for.\<close>

definition escape_table :: "(char \<times> char) list" where
  "escape_table =
     [(CHR 0x22, CHR 0x22), (CHR 0x5C, CHR 0x5C), (CHR ''/'', CHR ''/''), (CHR ''b'', CHR 0x08),
      (CHR ''f'', CHR 0x0C), (CHR ''n'', CHR 0x0A), (CHR ''r'', CHR 0x0D), (CHR ''t'', CHR 0x09)]"

text \<open>One or more decimal digits, and the number they write.\<close>

definition digits :: "string \<Rightarrow> bool" where
  "digits ds \<longleftrightarrow> ds \<noteq> [] \<and> list_all (\<lambda>c. map_of digit_table c \<noteq> None) ds"

fun decimal_rev :: "string \<Rightarrow> int" where
  "decimal_rev [] = 0"
| "decimal_rev (c # cs) = (case map_of digit_table c of None \<Rightarrow> 0 | Some n \<Rightarrow> n) + 10 * decimal_rev cs"

definition decimal :: "string \<Rightarrow> int" where
  "decimal ds = decimal_rev (rev ds)"

definition code_point :: "char \<Rightarrow> char \<Rightarrow> char \<Rightarrow> char \<Rightarrow> int option" where
  "code_point a b c d =
     (case map (map_of hex_table) [a, b, c, d] of
        [Some p, Some q, Some r, Some s] \<Rightarrow> Some (4096 * p + 256 * q + 16 * r + s)
      | _ \<Rightarrow> None)"

text \<open>UTF-8 (RFC 3629): the bytes of a code point.\<close>

definition utf8_encode :: "int \<Rightarrow> string" where
  "utf8_encode n =
     map char_of
       (if n \<le> 0x7F then [n]
        else if n \<le> 0x7FF then [0xC0 + n div 0x40, 0x80 + n mod 0x40]
        else if n \<le> 0xFFFF then [0xE0 + n div 0x1000, 0x80 + n div 0x40 mod 0x40, 0x80 + n mod 0x40]
        else [0xF0 + n div 0x40000, 0x80 + n div 0x1000 mod 0x40, 0x80 + n div 0x40 mod 0x40,
              0x80 + n mod 0x40])"

text \<open>
  A character of a string is written as itself, as a two-character escape or as \<^verbatim>\<open>\uXXXX\<close>;
  the escape of a high surrogate directly followed by the escape of a low surrogate is a
  surrogate pair and writes one character beyond the basic plane. A surrogate escape that
  is not part of a pair stands for the surrogate code point itself, as it does in Python.
\<close>

datatype jchar =
    Unescaped char
  | Escaped char
  | Unicode char char char char
  | SurrogatePair char char char char char char char char

fun jchar_text :: "jchar \<Rightarrow> string" where
  "jchar_text (Unescaped c) = [c]"
| "jchar_text (Escaped e) = [CHR 0x5C, e]"
| "jchar_text (Unicode a b c d) = [CHR 0x5C, CHR ''u'', a, b, c, d]"
| "jchar_text (SurrogatePair a b c d e f g h) =
     [CHR 0x5C, CHR ''u'', a, b, c, d, CHR 0x5C, CHR ''u'', e, f, g, h]"

fun jchar_value :: "jchar \<Rightarrow> string" where
  "jchar_value (Unescaped c) = [c]"
| "jchar_value (Escaped e) = (case map_of escape_table e of None \<Rightarrow> [] | Some c \<Rightarrow> [c])"
| "jchar_value (Unicode a b c d) = (case code_point a b c d of None \<Rightarrow> [] | Some n \<Rightarrow> utf8_encode n)"
| "jchar_value (SurrogatePair a b c d e f g h) =
     (case (code_point a b c d, code_point e f g h) of
        (Some hi, Some lo) \<Rightarrow> utf8_encode (0x10000 + (hi - 0xD800) * 0x400 + (lo - 0xDC00))
      | _ \<Rightarrow> [])"

fun jchar_ok :: "jchar \<Rightarrow> bool" where
  "jchar_ok (Unescaped c) = (c \<noteq> CHR 0x22 \<and> c \<noteq> CHR 0x5C \<and> 0x20 \<le> (of_char c :: int))"
| "jchar_ok (Escaped e) = (map_of escape_table e \<noteq> None)"
| "jchar_ok (Unicode a b c d) = (code_point a b c d \<noteq> None)"
| "jchar_ok (SurrogatePair a b c d e f g h) =
     (case (code_point a b c d, code_point e f g h) of
        (Some hi, Some lo) \<Rightarrow> 0xD800 \<le> hi \<and> hi \<le> 0xDBFF \<and> 0xDC00 \<le> lo \<and> lo \<le> 0xDFFF
      | _ \<Rightarrow> False)"

fun high_escape :: "jchar \<Rightarrow> bool" where
  "high_escape (Unicode a b c d) =
     (case code_point a b c d of None \<Rightarrow> False | Some n \<Rightarrow> 0xD800 \<le> n \<and> n \<le> 0xDBFF)"
| "high_escape _ = False"

fun low_escape :: "jchar \<Rightarrow> bool" where
  "low_escape (Unicode a b c d) =
     (case code_point a b c d of None \<Rightarrow> False | Some n \<Rightarrow> 0xDC00 \<le> n \<and> n \<le> 0xDFFF)"
| "low_escape _ = False"

text \<open>
  The characters of a string: each is well formed, and the escape of a high surrogate is
  not followed by the escape of a low one (the two together are a surrogate pair).
\<close>

fun string_ok :: "jchar list \<Rightarrow> bool" where
  "string_ok [] = True"
| "string_ok [j] = jchar_ok j"
| "string_ok (j # k # cs) = (jchar_ok j \<and> \<not> (high_escape j \<and> low_escape k) \<and> string_ok (k # cs))"

definition string_text :: "jchar list \<Rightarrow> string" where
  "string_text cs = CHR 0x22 # concat (map jchar_text cs) @ [CHR 0x22]"

definition string_value :: "jchar list \<Rightarrow> string" where
  "string_value cs = concat (map jchar_value cs)"

text \<open>
  A number is an optional minus sign, the integer part, an optional fraction (its digits)
  and an optional exponent (its letter, its sign if any and its digits).
\<close>

definition frac_text :: "string option \<Rightarrow> string" where
  "frac_text fp = (case fp of None \<Rightarrow> [] | Some ds \<Rightarrow> CHR ''.'' # ds)"

definition exp_text :: "(char \<times> string \<times> string) option \<Rightarrow> string" where
  "exp_text ep = (case ep of None \<Rightarrow> [] | Some (e, sg, ds) \<Rightarrow> e # sg @ ds)"

definition number_text :: "bool \<Rightarrow> string \<Rightarrow> string option \<Rightarrow> (char \<times> string \<times> string) option \<Rightarrow> string" where
  "number_text neg ip fp ep = (if neg then ''-'' else []) @ ip @ frac_text fp @ exp_text ep"

definition number_ok :: "string \<Rightarrow> string option \<Rightarrow> (char \<times> string \<times> string) option \<Rightarrow> bool" where
  "number_ok ip fp ep \<longleftrightarrow>
     (ip = ''0'' \<or> (digits ip \<and> hd ip \<noteq> CHR ''0''))
     \<and> (case fp of None \<Rightarrow> True | Some ds \<Rightarrow> digits ds)
     \<and> (case ep of
          None \<Rightarrow> True
        | Some (e, sg, ds) \<Rightarrow>
            (e = CHR ''e'' \<or> e = CHR ''E'') \<and> (sg = [] \<or> sg = ''+'' \<or> sg = ''-'') \<and> digits ds)"

text \<open>
  The grammar of \<^verbatim>\<open>json.org\<close>: an element is a value with white space around it, a member
  is a string, a colon and an element, and an array or an object holds white space only or
  a list of elements or members separated by commas.
\<close>

datatype jvalue =
    JNull
  | JTrue
  | JFalse
  | JNumber bool string "string option" "(char \<times> string \<times> string) option"
  | JString "jchar list"
  | JEmptyArray string
  | JArray "jelement list"
  | JEmptyObject string
  | JObject "jmember list"
and jelement = Element string jvalue string
and jmember = Member string "jchar list" string jelement

fun commas :: "string list \<Rightarrow> string" where
  "commas [] = []"
| "commas [x] = x"
| "commas (x # y # ys) = x @ CHR '','' # commas (y # ys)"

fun text_of :: "jvalue \<Rightarrow> string"
  and element_text :: "jelement \<Rightarrow> string"
  and member_text :: "jmember \<Rightarrow> string"
where
  "text_of JNull = ''null''"
| "text_of JTrue = ''true''"
| "text_of JFalse = ''false''"
| "text_of (JNumber neg ip fp ep) = number_text neg ip fp ep"
| "text_of (JString cs) = string_text cs"
| "text_of (JEmptyArray w) = CHR 0x5B # w @ [CHR 0x5D]"
| "text_of (JArray es) = CHR 0x5B # commas (map element_text es) @ [CHR 0x5D]"
| "text_of (JEmptyObject w) = CHR 0x7B # w @ [CHR 0x7D]"
| "text_of (JObject ms) = CHR 0x7B # commas (map member_text ms) @ [CHR 0x7D]"
| "element_text (Element a v b) = a @ text_of v @ b"
| "member_text (Member a k b e) = a @ string_text k @ b @ CHR '':'' # element_text e"

text \<open>
  The \<^verbatim>\<open>dict\<close> of a list of pairs: each name once, at the place of its first pair, with the
  value of its last pair.
\<close>

definition py_dict :: "(string \<times> pyval) list \<Rightarrow> (string \<times> pyval) list" where
  "py_dict kvs =
     map (\<lambda>k. (k, case map_of (rev kvs) k of None \<Rightarrow> PyNone | Some v \<Rightarrow> v))
       (rev (remdups (rev (map fst kvs))))"

text \<open>
  The value of a text: an int for a number without fraction and exponent and the float of
  its text otherwise, the list of the values of the elements, the dict of the members.
\<close>

fun value_of :: "jvalue \<Rightarrow> pyval"
  and element_value :: "jelement \<Rightarrow> pyval"
  and member_value :: "jmember \<Rightarrow> string \<times> pyval"
where
  "value_of JNull = PyNone"
| "value_of JTrue = PyBool True"
| "value_of JFalse = PyBool False"
| "value_of (JNumber neg ip fp ep) =
     (if fp = None \<and> ep = None then PyInt (if neg then - decimal ip else decimal ip)
      else PyFloat (number_text neg ip fp ep))"
| "value_of (JString cs) = PyStr (string_value cs)"
| "value_of (JEmptyArray w) = PyList []"
| "value_of (JArray es) = PyList (map element_value es)"
| "value_of (JEmptyObject w) = PyDict []"
| "value_of (JObject ms) = PyDict (py_dict (map member_value ms))"
| "element_value (Element a v b) = value_of v"
| "member_value (Member a k b e) = (string_value k, element_value e)"

text \<open>
  \<open>json_ok m d v\<close>: the tree \<open>v\<close> follows the grammar, arrays and objects are nested at most
  \<open>d\<close> deep and, unless \<open>m\<close> is 0, no int has more than \<open>m\<close> digits. A text is well-formed
  JSON when it is the text of such a tree for \<open>m = 0\<close> and some \<open>d\<close>.
\<close>

fun json_ok :: "nat \<Rightarrow> nat \<Rightarrow> jvalue \<Rightarrow> bool"
  and element_ok :: "nat \<Rightarrow> nat \<Rightarrow> jelement \<Rightarrow> bool"
  and member_ok :: "nat \<Rightarrow> nat \<Rightarrow> jmember \<Rightarrow> bool"
where
  "json_ok m d JNull = True"
| "json_ok m d JTrue = True"
| "json_ok m d JFalse = True"
| "json_ok m d (JNumber neg ip fp ep) =
     (number_ok ip fp ep \<and> (fp = None \<and> ep = None \<longrightarrow> m = 0 \<or> length ip \<le> m))"
| "json_ok m d (JString cs) = string_ok cs"
| "json_ok m d (JEmptyArray w) = (0 < d \<and> json_ws w)"
| "json_ok m d (JArray es) = (0 < d \<and> es \<noteq> [] \<and> list_all (element_ok m (d - 1)) es)"
| "json_ok m d (JEmptyObject w) = (0 < d \<and> json_ws w)"
| "json_ok m d (JObject ms) =
     (0 < d \<and> ms \<noteq> [] \<and> list_all (member_ok m (d - 1)) ms)"
| "element_ok m d (Element a v b) = (json_ws a \<and> json_ok m d v \<and> json_ws b)"
| "member_ok m d (Member a k b e) = (json_ws a \<and> string_ok k \<and> json_ws b \<and> element_ok m d e)"

text \<open>Whether a value is a number, and what may follow a number in a text.\<close>

fun is_number :: "jvalue \<Rightarrow> bool" where
  "is_number (JNumber neg ip fp ep) = True"
| "is_number _ = False"

definition value_end :: "string \<Rightarrow> bool" where
  "value_end r =
     (case r of
        [] \<Rightarrow> True
      | c # _ \<Rightarrow> c \<in> set [CHR '','', CHR 0x5D, CHR 0x7D, CHR 0x20, CHR 0x09, CHR 0x0A, CHR 0x0D])"

text \<open>
  Example documents. \<open>loan_doc\<close> uses each kind of white space, each way of writing a
  character, each kind of value and a repeated name; \<open>big_int_doc\<close> is \<^verbatim>\<open>{"inputs": [1000...0]}\<close> with an int of
  4301 digits; \<open>deep_doc\<close> is \<^verbatim>\<open>{"inputs": X}\<close> where \<open>X\<close> is 1000 arrays inside one another.
\<close>

definition inputs_key :: "jchar list" where
  "inputs_key = map Unescaped ''inputs''"

definition loan_doc :: jelement where
  "loan_doc =
     Element '' ''
       (JObject
          [Member [CHR 0x09] inputs_key [CHR 0x0A]
             (Element [CHR 0x0D]
                (JArray
                   [Element []
                      (JObject
                         [Member [] (map Unescaped ''income'') []
                            (Element '' '' (JNumber False ''50000'' None None) []),
                          Member '' ''
                            [Unescaped (CHR ''n''), Unicode (CHR ''0'') (CHR ''0'') (CHR ''6'') (CHR ''1''),
                             Unescaped (CHR ''m''), Unescaped (CHR ''e'')] '' ''
                            (Element '' ''
                               (JString
                                  [Unescaped (CHR ''Z''), Unescaped (CHR ''o''),
                                   Unicode (CHR ''0'') (CHR ''0'') (CHR ''E'') (CHR ''9''),
                                   Escaped (CHR ''n''), Escaped (CHR 0x22), Unescaped (CHR 0xC3),
                                   Unescaped (CHR 0xA9),
                                   SurrogatePair (CHR ''d'') (CHR ''8'') (CHR ''3'') (CHR ''d'')
                                     (CHR ''d'') (CHR ''e'') (CHR ''0'') (CHR ''0'')])
                               []),
                          Member [] (map Unescaped ''income'') []
                            (Element [] (JNumber False ''52000'' None None) [])])
                      [],
                    Element []
                      (JString [Unicode (CHR ''D'') (CHR ''8'') (CHR ''0'') (CHR ''0''), Unescaped (CHR ''x'')])
                      [],
                    Element '' '' (JNumber True ''1'' (Some ''50'') (Some (CHR ''e'', ''+'', ''3''))) [],
                    Element '' '' (JNumber True ''0'' None None) [CHR 0x09],
                    Element [] (JEmptyArray []) [],
                    Element '' '' (JEmptyObject '' '') [],
                    Element '' '' JTrue [],
                    Element '' '' JFalse [],
                    Element [CHR 0x0A] JNull [CHR 0x0D, CHR 0x0A]])
                '' '')])
       [CHR 0x0A]"

definition loan_records :: "pyval list" where
  "loan_records =
     [PyDict [(''income'', PyInt 52000),
              (''name'', PyStr (''Zo'' @ [CHR 0xC3, CHR 0xA9, CHR 0x0A, CHR 0x22, CHR 0xC3, CHR 0xA9,
                                        CHR 0xF0, CHR 0x9F, CHR 0x98, CHR 0x80]))],
      PyStr [CHR 0xED, CHR 0xA0, CHR 0x80, CHR ''x''], PyFloat ''-1.50e+3'', PyInt 0, PyList [], PyDict [], PyBool True, PyBool False, PyNone]"

definition big_int_doc :: jelement where
  "big_int_doc =
     Element []
       (JObject
          [Member [] inputs_key []
             (Element '' ''
                (JArray [Element [] (JNumber False (CHR ''1'' # replicate 4300 (CHR ''0'')) None None) []])
                [])])
       []"

fun nested :: "nat \<Rightarrow> jvalue" where
  "nested 0 = JEmptyArray []"
| "nested (Suc n) = JArray [Element [] (nested n) []]"

definition deep_doc :: jelement where
  "deep_doc = Element [] (JObject [Member [] inputs_key [] (Element '' '' (nested 999) [])]) []"

section \<open>Progress and failures of the decoder\<close>

text \<open>
  Each successful step of the decoder consumes input, so the three tests on the length of
  the input in \<open>parse_array\<close> and \<open>parse_object\<close> always succeed, and the decoder fails in
  three ways only: with \<^verbatim>\<open>JSONDecodeError\<close>, with \<^verbatim>\<open>RecursionError\<close> and with \<^verbatim>\<open>ValueError\<close>.
\<close>

declare parse_array.simps [simp del] parse_object.simps [simp del]

lemma read_escape_shorter: "read_escape s = Some (p, r) \<Longrightarrow> length r < length s"
  by (auto simp: read_escape_def split: list.splits if_splits option.splits)

lemma prepend_InrD: "prepend p x = Inr (s, r) \<Longrightarrow> \<exists>s'. x = Inr (s', r)"
  by (cases x) (auto simp: prepend_def)

lemma scanstring_shorter: "scanstring s = Inr (x, r) \<Longrightarrow> length r < length s"
proof (induction "length s" arbitrary: s x rule: less_induct)
  case less
  show ?case
  proof (cases s)
    case Nil
    with less.prems show ?thesis by simp
  next
    case (Cons c cs)
    show ?thesis
    proof (cases "c = CHR 0x22")
      case True
      with less.prems Cons show ?thesis by simp
    next
      case nq: False
      show ?thesis
      proof (cases "c = CHR 0x5C")
        case True
        with nq less.prems Cons obtain p rest y where e: "read_escape cs = Some (p, rest)"
          and y: "scanstring rest = Inr (y, r)"
          by (auto split: option.splits dest: prepend_InrD)
        from read_escape_shorter [OF e] Cons have "length rest < length s" by simp
        from less.hyps [OF this y] this show ?thesis by simp
      next
        case False
        with nq less.prems Cons obtain y where y: "scanstring cs = Inr (y, r)"
          by (auto split: if_splits dest: prepend_InrD)
        from Cons have "length cs < length s" by simp
        from less.hyps [OF this y] this show ?thesis by simp
      qed
    qed
  qed
qed

lemma match_int_shorter: "match_int s = Some (ip, r) \<Longrightarrow> length r < length s"
proof (cases s)
  case Nil
  then show "match_int s = Some (ip, r) \<Longrightarrow> length r < length s" by (simp add: match_int_def)
next
  case (Cons c cs)
  have "length (dropWhile is_digit cs) \<le> length cs" by (rule length_dropWhile_le)
  with Cons show "match_int s = Some (ip, r) \<Longrightarrow> length r < length s"
    by (auto simp: match_int_def split: if_splits)
qed

lemma match_frac_shorter: "length (snd (match_frac s)) \<le> length s"
proof -
  have "\<And>xs. length (dropWhile is_digit xs) \<le> length xs" by (rule length_dropWhile_le)
  then show ?thesis
    by (auto simp: match_frac_def split: list.splits intro: le_SucI)
qed

lemma match_exp_shorter: "length (snd (match_exp s)) \<le> length s"
proof -
  have d: "\<And>xs. length (dropWhile is_digit xs) \<le> length xs" by (rule length_dropWhile_le)
  show ?thesis
  proof (cases s)
    case Nil
    then show ?thesis by (simp add: match_exp_def)
  next
    case (Cons e r)
    show ?thesis
    proof (cases r)
      case Nil
      with Cons show ?thesis by (simp add: match_exp_def)
    next
      case (Cons g t)
      with \<open>s = e # r\<close> d [of t] d [of "g # t"] show ?thesis
        by (auto simp: match_exp_def Let_def split: if_splits)
    qed
  qed
qed

lemma match_number_shorter:
  assumes "match_number s = Some (neg, ip, fp, ep, r)"
  shows "length r < length s"
proof -
  obtain ng s1 where n: "(case s of c # r \<Rightarrow> if c = CHR ''-'' then (True, r) else (False, s) | [] \<Rightarrow> (False, s)) = (ng, s1)"
    by (cases "(case s of c # r \<Rightarrow> if c = CHR ''-'' then (True, r) else (False, s) | [] \<Rightarrow> (False, s))")
  then have s1: "length s1 \<le> length s" by (auto split: list.splits if_splits)
  from assms n obtain ip' r1 where mi: "match_int s1 = Some (ip', r1)"
    by (auto simp: match_number_def split: option.splits)
  obtain fp' r2 where mf: "match_frac r1 = (fp', r2)" by (cases "match_frac r1")
  obtain ep' r3 where me: "match_exp r2 = (ep', r3)" by (cases "match_exp r2")
  from assms n mi mf me have "r = r3"
    by (auto simp: match_number_def split: if_splits)
  moreover from match_exp_shorter [of r2] me have "length r3 \<le> length r2" by simp
  moreover from match_frac_shorter [of r1] mf have "length r2 \<le> length r1" by simp
  moreover note match_int_shorter [OF mi] s1
  ultimately show ?thesis by simp
qed

lemma prepend_InlD: "prepend p x = Inl e \<Longrightarrow> x = Inl e"
  by (cases x) (auto simp: prepend_def)

lemma scanstring_error: "scanstring s = Inl e \<Longrightarrow> e = JSONDecodeError"
proof (induction "length s" arbitrary: s rule: less_induct)
  case less
  show ?case
  proof (cases s)
    case Nil
    with less.prems show ?thesis by simp
  next
    case (Cons c cs)
    show ?thesis
    proof (cases "c = CHR 0x5C")
      case True
      show ?thesis
      proof (cases "read_escape cs")
        case None
        with True less.prems Cons show ?thesis by (auto split: if_splits)
      next
        case (Some pr)
        obtain p rest where pr: "pr = (p, rest)" by (cases pr)
        with True Some less.prems Cons have "scanstring rest = Inl e"
          by (auto split: if_splits dest: prepend_InlD)
        moreover from read_escape_shorter Some pr Cons have "length rest < length s" by fastforce
        ultimately show ?thesis using less.hyps by blast
      qed
    next
      case False
      show ?thesis
      proof (cases "c = CHR 0x22 \<or> (of_char c :: int) \<le> 0x1F")
        case True
        with False less.prems Cons show ?thesis by (auto split: if_splits)
      next
        case nf: False
        with False less.prems Cons have "prepend [c] (scanstring cs) = Inl e" by simp
        then have "scanstring cs = Inl e" by (rule prepend_InlD)
        with less.hyps [of cs] Cons show ?thesis by simp
      qed
    qed
  qed
qed

lemma skip_ws_le: "length (skip_ws s) \<le> length s"
  by (simp add: skip_ws_def length_dropWhile_le)

lemma scan_scalar_shorter: "scan_scalar m s = Inr (v, r) \<Longrightarrow> length r < length s"
proof -
  assume a: "scan_scalar m s = Inr (v, r)"
  have p: "\<And>lit. prefix lit s \<Longrightarrow> lit \<noteq> [] \<Longrightarrow> length (drop (length lit) s) < length s"
    by (auto simp: prefix_def)
  from a show ?thesis
    using p [of "''null''"] p [of "''true''"] p [of "''false''"] p [of "''NaN''"]
      p [of "''Infinity''"] p [of "''-Infinity''"]
    by (auto simp: scan_scalar_def split: if_splits option.splits sum.splits dest: match_number_shorter)
qed

lemma scan_scalar_error:
  "scan_scalar m s = Inl e \<Longrightarrow> e = JSONDecodeError \<or> e = ValueError"
  by (auto simp: scan_scalar_def number_value_def split: if_splits option.splits sum.splits)

lemma scan_progress:
  "(\<forall>v r. scan_once m d s = Inr (v, r) \<longrightarrow> length r < length s)
     \<and> (\<forall>e. scan_once m d s = Inl e \<longrightarrow> e = JSONDecodeError \<or> e = RecursionError \<or> e = ValueError)"
  "(\<forall>vs r. parse_array m' d' t = Inr (vs, r) \<longrightarrow> length r < length t)
     \<and> (\<forall>e. parse_array m' d' t = Inl e \<longrightarrow> e = JSONDecodeError \<or> e = RecursionError \<or> e = ValueError)"
  "(\<forall>kvs r. parse_object m'' d'' u = Inr (kvs, r) \<longrightarrow> length r < length u)
     \<and> (\<forall>e. parse_object m'' d'' u = Inl e \<longrightarrow> e = JSONDecodeError \<or> e = RecursionError \<or> e = ValueError)"
proof (induction m d s and m' d' t and m'' d'' u rule: scan_once_parse_array_parse_object.induct)
  case (1 m d)
  show ?case by simp
next
  case (2 m d c r)
  show ?case
  proof (cases "c = CHR 0x22")
    case True
    then show ?thesis
      by (auto split: sum.splits dest: scanstring_shorter scanstring_error)
  next
    case nq: False
    show ?thesis
    proof (cases "c = CHR 0x7B")
      case True
      show ?thesis
      proof (cases d)
        case 0
        with True show ?thesis by simp
      next
        case (Suc n)
        show ?thesis
        proof (cases "skip_ws r")
          case Nil
          with True Suc show ?thesis by simp
        next
          case (Cons c' r')
          with skip_ws_le [of r] have len: "length r' < length r" by simp
          show ?thesis
          proof (cases "c' = CHR 0x7D")
            case True
            with \<open>c = CHR 0x7B\<close> Suc Cons len show ?thesis by auto
          next
            case ne: False
            from "2.IH"(1) [OF nq True Suc Cons ne]
            have IH: "(\<forall>kvs q. parse_object m n (c' # r') = Inr (kvs, q) \<longrightarrow> length q < length (c' # r'))
               \<and> (\<forall>e. parse_object m n (c' # r') = Inl e \<longrightarrow> e = JSONDecodeError \<or> e = RecursionError \<or> e = ValueError)" .
            from len have l2: "length (c' # r') \<le> length r" by simp
            from IH l2 \<open>c = CHR 0x7B\<close> Cons ne Suc show ?thesis
              by (auto split: sum.splits)
          qed
        qed
      qed
    next
      case nb: False
      show ?thesis
      proof (cases "c = CHR 0x5B")
        case True
        show ?thesis
        proof (cases d)
          case 0
          with True show ?thesis by simp
        next
          case (Suc n)
          show ?thesis
          proof (cases "skip_ws r")
            case Nil
            with True Suc show ?thesis by simp
          next
            case (Cons c' r')
            with skip_ws_le [of r] have len: "length r' < length r" by simp
            show ?thesis
            proof (cases "c' = CHR 0x5D")
              case True
              with \<open>c = CHR 0x5B\<close> Suc Cons len show ?thesis by auto
            next
              case ne: False
              from "2.IH"(2) [OF nq nb True Suc Cons ne]
              have IH: "(\<forall>vs q. parse_array m n (c' # r') = Inr (vs, q) \<longrightarrow> length q < length (c' # r'))
                 \<and> (\<forall>e. parse_array m n (c' # r') = Inl e \<longrightarrow> e = JSONDecodeError \<or> e = RecursionError \<or> e = ValueError)" .
              from len have l2: "length (c' # r') \<le> length r" by simp
              from IH l2 \<open>c = CHR 0x5B\<close> Cons ne Suc show ?thesis
                by (auto split: sum.splits)
            qed
          qed
        qed
      next
        case False
        with nq nb show ?thesis
          by (auto dest: scan_scalar_shorter scan_scalar_error)
      qed
    qed
  qed
next
  case (3 m d s)
  note P = "3.IH"(1)
  show ?case
  proof (cases "scan_once m d s")
    case (Inl e)
    with P show ?thesis by (subst (1 2) parse_array.simps) auto
  next
    case (Inr b)
    obtain v y where b: "b = (v, y)" by (cases b)
    from P Inr b have ly: "length y < length s" by simp
    show ?thesis
    proof (cases "skip_ws y")
      case Nil
      with Inr b show ?thesis by (subst (1 2) parse_array.simps) simp
    next
      case (Cons e y')
      with skip_ws_le [of y] have ly': "length y' < length y" by simp
      show ?thesis
      proof (cases "e = CHR '',''")
        case False
        with Inr b Cons ly ly' show ?thesis by (subst (1 2) parse_array.simps) auto
      next
        case True
        from True have nd: "e \<noteq> CHR 0x5D" by simp
        from skip_ws_le [of y'] ly ly' have l3: "length (skip_ws y') < length s" by simp
        from "3.IH"(2) [OF Inr b [symmetric] Cons nd True l3]
        have IH: "(\<forall>vs q. parse_array m d (skip_ws y') = Inr (vs, q) \<longrightarrow> length q < length (skip_ws y'))
           \<and> (\<forall>e. parse_array m d (skip_ws y') = Inl e \<longrightarrow> e = JSONDecodeError \<or> e = RecursionError \<or> e = ValueError)" .
        from IH l3 Inr b Cons True show ?thesis
          by (subst (1 2) parse_array.simps) (auto split: sum.splits)
      qed
    qed
  qed
next
  case (4 m d s)
  show ?case
  proof (cases s)
    case Nil
    then show ?thesis by (subst (1 2) parse_object.simps) simp
  next
    case (Cons q r)
    show ?thesis
    proof (cases "q = CHR 0x22")
      case False
      with Cons show ?thesis by (subst (1 2) parse_object.simps) simp
    next
      case q: True
      show ?thesis
      proof (cases "scanstring r")
        case (Inl e)
        with scanstring_error [OF Inl] Cons q show ?thesis
          by (subst (1 2) parse_object.simps) simp
      next
        case (Inr b)
        obtain k r1 where b: "b = (k, r1)" by (cases b)
        from scanstring_shorter Inr b have l1: "length r1 < length r" by blast
        show ?thesis
        proof (cases "skip_ws r1")
          case Nil
          with Cons q Inr b show ?thesis by (subst (1 2) parse_object.simps) simp
        next
          case c2: (Cons c r2)
          with skip_ws_le [of r1] have l2: "length r2 < length r1" by simp
          show ?thesis
          proof (cases "c = CHR '':''")
            case False
            with Cons q Inr b c2 show ?thesis by (subst (1 2) parse_object.simps) simp
          next
            case colon: True
            have nn: "\<not> q \<noteq> CHR 0x22" "\<not> c \<noteq> CHR '':''" using q colon by simp_all
            from skip_ws_le [of r2] l1 l2 Cons have l3: "length (skip_ws r2) < length s" by simp
            from "4.IH"(1) [OF Cons nn(1) Inr b [symmetric] c2 nn(2) l3]
            have P: "(\<forall>v w. scan_once m d (skip_ws r2) = Inr (v, w) \<longrightarrow> length w < length (skip_ws r2))
               \<and> (\<forall>e. scan_once m d (skip_ws r2) = Inl e \<longrightarrow> e = JSONDecodeError \<or> e = RecursionError \<or> e = ValueError)" .
            show ?thesis
            proof (cases "scan_once m d (skip_ws r2)")
              case (Inl e)
              with P l3 Cons q \<open>scanstring r = Inr b\<close> b c2 colon show ?thesis
                by (subst (1 2) parse_object.simps) auto
            next
              case i2: (Inr b2)
              obtain v r3 where b2: "b2 = (v, r3)" by (cases b2)
              from P i2 b2 have l4: "length r3 < length (skip_ws r2)" by simp
              show ?thesis
              proof (cases "skip_ws r3")
                case Nil
                with Cons q \<open>scanstring r = Inr b\<close> b c2 colon i2 b2 show ?thesis
                  by (subst (1 2) parse_object.simps) simp
              next
                case c4: (Cons e r4)
                with skip_ws_le [of r3] have l5: "length r4 < length r3" by simp
                show ?thesis
                proof (cases "e = CHR '',''")
                  case False
                  with Cons q \<open>scanstring r = Inr b\<close> b c2 colon i2 b2 c4 l3 l4 l5 show ?thesis
                    by (subst (1 2) parse_object.simps) auto
                next
                  case comma: True
                  from comma have nd: "e \<noteq> CHR 0x7D" by simp
                  from skip_ws_le [of r4] l3 l4 l5 have l6: "length (skip_ws r4) < length s" by simp
                  from "4.IH"(2) [OF Cons nn(1) \<open>scanstring r = Inr b\<close> b [symmetric] c2 nn(2) l3
                         i2 b2 [symmetric] c4 nd comma l6]
                  have IH: "(\<forall>kvs w. parse_object m d (skip_ws r4) = Inr (kvs, w)
                                \<longrightarrow> length w < length (skip_ws r4))
                     \<and> (\<forall>e. parse_object m d (skip_ws r4) = Inl e \<longrightarrow> e = JSONDecodeError \<or> e = RecursionError \<or> e = ValueError)" .
                  from IH l3 l6 Cons q \<open>scanstring r = Inr b\<close> b c2 colon i2 b2 c4 comma show ?thesis
                    by (subst (1 2) parse_object.simps) (auto split: sum.splits)
                qed
              qed
            qed
          qed
        qed
      qed
    qed
  qed
qed

lemma parse_array_unfold:
  "parse_array m d s =
     (case scan_once m d s of
        Inl e \<Rightarrow> Inl e
      | Inr (v, r) \<Rightarrow>
          (case skip_ws r of
             [] \<Rightarrow> Inl JSONDecodeError
           | c # r' \<Rightarrow>
               if c = CHR 0x5D then Inr ([v], r')
               else if c = CHR '','' then
                 (case parse_array m d (skip_ws r') of
                    Inl e \<Rightarrow> Inl e
                  | Inr (vs, r'') \<Rightarrow> Inr (v # vs, r''))
               else Inl JSONDecodeError))"
proof (cases "scan_once m d s")
  case (Inl e)
  then show ?thesis by (subst parse_array.simps) simp
next
  case (Inr b)
  obtain v r where b: "b = (v, r)" by (cases b)
  from scan_progress(1) [of m d s] Inr b have l: "length r < length s" by simp
  show ?thesis
  proof (cases "skip_ws r")
    case Nil
    with Inr b show ?thesis by (subst parse_array.simps) simp
  next
    case (Cons c r')
    with skip_ws_le [of r] have "length r' < length r" by simp
    with skip_ws_le [of r'] l have "length (skip_ws r') < length s" by simp
    with Inr b Cons show ?thesis by (subst parse_array.simps) simp
  qed
qed

lemma parse_object_unfold:
  "parse_object m d s =
     (case s of
        [] \<Rightarrow> Inl JSONDecodeError
      | q # r \<Rightarrow>
          if q \<noteq> CHR 0x22 then Inl JSONDecodeError
          else
            (case scanstring r of
               Inl e \<Rightarrow> Inl e
             | Inr (k, r1) \<Rightarrow>
                 (case skip_ws r1 of
                    [] \<Rightarrow> Inl JSONDecodeError
                  | c # r2 \<Rightarrow>
                      if c \<noteq> CHR '':'' then Inl JSONDecodeError
                      else
                        (case scan_once m d (skip_ws r2) of
                           Inl e \<Rightarrow> Inl e
                         | Inr (v, r3) \<Rightarrow>
                             (case skip_ws r3 of
                                [] \<Rightarrow> Inl JSONDecodeError
                              | e # r4 \<Rightarrow>
                                  if e = CHR 0x7D then Inr ([(k, v)], r4)
                                  else if e = CHR '','' then
                                    (case parse_object m d (skip_ws r4) of
                                       Inl e \<Rightarrow> Inl e
                                     | Inr (kvs, r5) \<Rightarrow> Inr ((k, v) # kvs, r5))
                                  else Inl JSONDecodeError)))))"
proof (cases s)
  case Nil
  then show ?thesis by (subst parse_object.simps) simp
next
  case (Cons q r)
  show ?thesis
  proof (cases "scanstring r")
    case (Inl e)
    with Cons show ?thesis by (subst parse_object.simps) simp
  next
    case (Inr b)
    obtain k r1 where b: "b = (k, r1)" by (cases b)
    from scanstring_shorter Inr b have l1: "length r1 < length r" by blast
    show ?thesis
    proof (cases "skip_ws r1")
      case Nil
      with Cons Inr b show ?thesis by (subst parse_object.simps) simp
    next
      case c2: (Cons c r2)
      with skip_ws_le [of r1] have l2: "length r2 < length r1" by simp
      from skip_ws_le [of r2] l1 l2 Cons have l3: "length (skip_ws r2) < length s" by simp
      show ?thesis
      proof (cases "scan_once m d (skip_ws r2)")
        case (Inl e)
        with Cons \<open>scanstring r = Inr b\<close> b c2 l3 show ?thesis by (subst parse_object.simps) simp
      next
        case i2: (Inr b2)
        obtain v r3 where b2: "b2 = (v, r3)" by (cases b2)
        from scan_progress(1) [of m d "skip_ws r2"] i2 b2
        have l4: "length r3 < length (skip_ws r2)" by simp
        show ?thesis
        proof (cases "skip_ws r3")
          case Nil
          with Cons \<open>scanstring r = Inr b\<close> b c2 l3 i2 b2 show ?thesis
            by (subst parse_object.simps) simp
        next
          case c4: (Cons e r4)
          with skip_ws_le [of r3] have l5: "length r4 < length r3" by simp
          from skip_ws_le [of r4] l3 l4 l5 have l6: "length (skip_ws r4) < length s" by simp
          with Cons \<open>scanstring r = Inr b\<close> b c2 l3 i2 b2 c4 show ?thesis
            by (subst parse_object.simps) simp
        qed
      qed
    qed
  qed
qed

lemma json_loads_error:
  "json_loads py s = Inl e \<Longrightarrow> e = JSONDecodeError \<or> e = RecursionError \<or> e = ValueError"
  using scan_progress(1) [of "int_max_str_digits py" "recursion_limit py" "skip_ws s"]
  by (auto simp: json_loads_def split: sum.splits if_splits)

section \<open>Parsing the completion\<close>

lemma parse_output_decode_error:
  assumes "json_loads py (content raw) = Inl JSONDecodeError"
  shows "parse_output py self raw
           = Inl (LLMGenerationError ''Could not parse generated data'' JSONDecodeError)"
  using assms by (simp add: parse_output_def wrap_def)

lemma parse_output_limit_error:
  assumes "json_loads py (content raw) = Inl e" and "e \<noteq> JSONDecodeError"
  shows "parse_output py self raw = Inl e"
  using assms json_loads_error [OF assms(1)] by (auto simp: parse_output_def wrap_def)

lemma parse_output_missing_key:
  "json_loads py (content raw) = Inr (PyDict d) \<Longrightarrow> output_key self \<noteq> [] \<Longrightarrow>
     map_of d (output_key self) = None \<Longrightarrow>
     parse_output py self raw =
       Inl (LLMGenerationError ''Could not parse generated data'' (KeyError (output_key self)))"
  by (simp add: parse_output_def wrap_def)

lemma parse_output_not_a_dict:
  "json_loads py (content raw) = Inr data \<Longrightarrow> output_key self \<noteq> [] \<Longrightarrow>
     \<forall>d. data \<noteq> PyDict d \<Longrightarrow> parse_output py self raw = Inl TypeError"
  by (cases data) (simp_all add: parse_output_def wrap_def)

text \<open>
  Claim C1. A completion that is not well-formed JSON, or that decodes to data without the
  configured key, should make \<^verbatim>\<open>generate_dataset\<close> raise \<^verbatim>\<open>LLMGenerationError\<close> whatever
  the shape of the content. It does for the contents \<^verbatim>\<open>not json\<close> and \<^verbatim>\<open>{"data": []}\<close>. The
  content \<^verbatim>\<open>[]\<close> is well-formed JSON without the key \<^verbatim>\<open>inputs\<close>; subscripting the decoded
  list by a string raises \<^verbatim>\<open>TypeError\<close>, which the \<^verbatim>\<open>except\<close> clause does not name, so the
  caller gets the \<^verbatim>\<open>TypeError\<close>.
\<close>

theorem generate_dataset_json_array_type_error:
  \<open>fst (generate_dataset default_interpreter format_messages (loan_generator ''not json'') loan_model 3 None)
     = Inl (LLMGenerationError ''Could not parse generated data'' JSONDecodeError)
   \<and> fst (generate_dataset default_interpreter format_messages (loan_generator ''{"data": []}'') loan_model 3 None)
     = Inl (LLMGenerationError ''Could not parse generated data'' (KeyError ''inputs''))
   \<and> json_loads default_interpreter ''[]'' = Inr (PyList [])
   \<and> parse_output default_interpreter (loan_generator ''[]'') \<lparr>role = ''assistant'', content = ''[]''\<rparr> = Inl TypeError
   \<and> fst (generate_dataset default_interpreter format_messages (loan_generator ''[]'') loan_model 3 None) = Inl TypeError\<close>
  by code_simp



section \<open>Assembling the dataset\<close>

text \<open>
  Claim C3. Whenever \<^verbatim>\<open>generate_dataset\<close> returns a dataset, for any model (any name, the
  empty one included), any generator and any optional column types: its name is
  \<^verbatim>\<open>"Synthetic Test Dataset for "\<close> followed by the model's name, its frame is built from
  exactly what the parser returned for the completion, the column types are the ones given,
  and the validation flag is false.
\<close>

theorem generate_dataset_result:
  assumes "generate_dataset py fmt self model n ct = (Inr ds, calls)"
  shows "dataset.name ds = ''Synthetic Test Dataset for '' @ base_model.name model
     \<and> validation ds = False \<and> column_types ds = ct
     \<and> (\<exists>call out generated. calls = [call] \<and> llm_client self call = Inr out
           \<and> parse_output py self out = Inr generated \<and> df ds = DataFrame generated)"
  using assms
  by (auto simp: generate_dataset_def make_dataset_name_def Let_def split: sum.splits)

theorem generate_dataset_result_witness:
  \<open>generate_dataset default_interpreter format_messages
      (loan_generator ''{"inputs": [{"income": 50000, "age": 30}, {"income": 72000, "age": 45}, {"income": 15000, "age": 22}]}'')
      loan_model 3 (Some [(''income'', ''numeric'')])
    = (Inr \<lparr>df = DataFrame
               (PyList
                 [PyDict [(''income'', PyInt 50000), (''age'', PyInt 30)],
                  PyDict [(''income'', PyInt 72000), (''age'', PyInt 45)],
                  PyDict [(''income'', PyInt 15000), (''age'', PyInt 22)]]),
            name = ''Synthetic Test Dataset for Loan Approval'', validation = False,
            column_types = Some [(''income'', ''numeric'')]\<rparr>,
       [\<lparr>messages = [\<lparr>role = ''user'', content = ''Generate 3 inputs for Loan Approval.''\<rparr>],
         temperature = 1 / 2, caller_id = ''LLMBasedDataGenerator'', seed = 1729, format = ''json''\<rparr>])
   \<and> ''Synthetic Test Dataset for Loan Approval'' = ''Synthetic Test Dataset for '' @ base_model.name loan_model\<close>
proof -
  have h: \<open>generate_dataset default_interpreter format_messages
      (loan_generator ''{"inputs": [{"income": 50000, "age": 30}, {"income": 72000, "age": 45}, {"income": 15000, "age": 22}]}'')
      loan_model 3 (Some [(''income'', ''numeric'')])
    = (Inr \<lparr>df = DataFrame
               (PyList
                 [PyDict [(''income'', PyInt 50000), (''age'', PyInt 30)],
                  PyDict [(''income'', PyInt 72000), (''age'', PyInt 45)],
                  PyDict [(''income'', PyInt 15000), (''age'', PyInt 22)]]),
            name = ''Synthetic Test Dataset for Loan Approval'', validation = False,
            column_types = Some [(''income'', ''numeric'')]\<rparr>,
       [\<lparr>messages = [\<lparr>role = ''user'', content = ''Generate 3 inputs for Loan Approval.''\<rparr>],
         temperature = 1 / 2, caller_id = ''LLMBasedDataGenerator'', seed = 1729, format = ''json''\<rparr>])\<close>
    by code_simp
  from generate_dataset_result [OF h] h show ?thesis by simp
qed

section \<open>Building the request\<close>

lemma format_messages_of_list:
  assumes "str_format (prompt self)
             [(''model'', FObj model), (''num_samples'', FInt n),
              (''languages'', FStr (join '', '' (languages self)))] = Inr instruction"
    and "prefix_messages self = ListSeq ms"
  shows "format_messages self model n ct = Inr (ms @ [\<lparr>role = ''user'', content = instruction\<rparr>])"
  using assms by (simp add: format_messages_def)

lemma format_messages_of_tuple:
  assumes "str_format (prompt self)
             [(''model'', FObj model), (''num_samples'', FInt n),
              (''languages'', FStr (join '', '' (languages self)))] = Inr instruction"
    and "prefix_messages self = TupleSeq ms"
  shows "format_messages self model n ct = Inl TypeError"
  using assms by (simp add: format_messages_def)

lemma init_prefix_messages:
  "prefix_messages (llm_based_data_generator_init dc p pm ls t c s) =
     (case pm of
        None \<Rightarrow> ListSeq []
      | Some (ListSeq ms) \<Rightarrow> ListSeq ms
      | Some (TupleSeq ms) \<Rightarrow> if ms = [] then ListSeq [] else TupleSeq ms)"
  by (simp add: llm_based_data_generator_init_def base_llm_generator_init_def or_empty_list_def
        base_llm_generator.defs llm_based_data_generator.defs Let_def
      split: option.splits pyseq.splits)

text \<open>
  Claim C5. For every sequence of prefix messages and every rendered instruction, the
  messages should be the prefix messages in their order followed by exactly one message of
  role \<^verbatim>\<open>user\<close> whose content is the instruction. They are when the prefix messages are a
  list, or are left out or empty (\<open>format_messages_of_list\<close>, \<open>init_prefix_messages\<close>). The
  constructor is annotated to take any sequence, and it keeps a non-empty tuple as it is;
  \<^verbatim>\<open>_format_messages\<close> then adds a list to the tuple, which raises \<^verbatim>\<open>TypeError\<close>
  (\<open>format_messages_of_tuple\<close>): no messages are built and \<^verbatim>\<open>generate_dataset\<close> raises
  the \<^verbatim>\<open>TypeError\<close> without a call to the client.
\<close>

theorem format_messages_tuple_prefix_type_error:
  "prefix_messages tuple_prefix_generator = TupleSeq [system_message]
   \<and> str_format (prompt tuple_prefix_generator)
         [(''model'', FObj loan_model), (''num_samples'', FInt 3),
          (''languages'', FStr (join '', '' (languages tuple_prefix_generator)))]
       = Inr ''3 inputs in en, fr''
   \<and> format_messages tuple_prefix_generator loan_model 3 None = Inl TypeError
   \<and> generate_dataset default_interpreter format_messages tuple_prefix_generator loan_model 3 None
       = (Inl TypeError, [])
   \<and> format_messages list_prefix_generator loan_model 3 None
       = Inr [system_message, \<lparr>role = ''user'', content = ''3 inputs in en, fr''\<rparr>]"
  by code_simp

text \<open>
  Claim C6, as amended. An invocation whose messages are built issues exactly one
  completion call, with these messages, the temperature and the seed stored in the
  generator, the format \<^verbatim>\<open>json\<close> and the name of the generator's class as caller id; an
  invocation whose message building fails issues no call and returns that failure.
\<close>

theorem generate_dataset_calls:
  "(fmt self model n ct = Inr msgs \<longrightarrow>
      snd (generate_dataset py fmt self model n ct) =
        [\<lparr>messages = msgs, temperature = llm_temperature self, caller_id = class_name self,
          seed = llm_seed self, format = ''json''\<rparr>])
   \<and> (fmt self model n ct = Inl e \<longrightarrow> generate_dataset py fmt self model n ct = (Inl e, []))
   \<and> class_name (llm_based_data_generator_init dc p pm ls t c s) = ''LLMBasedDataGenerator''"
  by (auto simp: generate_dataset_def Let_def llm_based_data_generator_init_def
        base_llm_generator_init_def base_llm_generator.defs llm_based_data_generator.defs
      split: sum.splits)

theorem generate_dataset_calls_witness:
  "format_messages (loan_generator ''[]'') loan_model 3 None
     = Inr [\<lparr>role = ''user'', content = ''Generate 3 inputs for Loan Approval.''\<rparr>]
   \<and> snd (generate_dataset default_interpreter format_messages (loan_generator ''[]'') loan_model 3 None) =
        [\<lparr>messages = [\<lparr>role = ''user'', content = ''Generate 3 inputs for Loan Approval.''\<rparr>],
          temperature = llm_temperature (loan_generator ''[]''),
          caller_id = class_name (loan_generator ''[]''),
          seed = llm_seed (loan_generator ''[]''), format = ''json''\<rparr>]
   \<and> format_messages
        (llm_based_data_generator_init (stub_client []) ''{topic}'' None None None None None)
        loan_model 10 None = Inl (KeyError ''topic'')
   \<and> generate_dataset default_interpreter format_messages
        (llm_based_data_generator_init (stub_client []) ''{topic}'' None None None None None)
        loan_model 10 None = (Inl (KeyError ''topic''), [])"
proof -
  have h1: "format_messages (loan_generator ''[]'') loan_model 3 None
     = Inr [\<lparr>role = ''user'', content = ''Generate 3 inputs for Loan Approval.''\<rparr>]"
    by code_simp
  have h2: "format_messages
        (llm_based_data_generator_init (stub_client []) ''{topic}'' None None None None None)
        loan_model 10 None = Inl (KeyError ''topic'')"
    by code_simp
  from generate_dataset_calls [where fmt = format_messages and self = "loan_generator ''[]''"
         and model = loan_model and n = 3 and ct = None and py = default_interpreter
         and msgs = "[\<lparr>role = ''user'', content = ''Generate 3 inputs for Loan Approval.''\<rparr>]"]
       generate_dataset_calls [where fmt = format_messages
         and self = "llm_based_data_generator_init (stub_client []) ''{topic}'' None None None None None"
         and model = loan_model and n = 10 and ct = None and py = default_interpreter
         and e = "KeyError ''topic''"]
       h1 h2
  show ?thesis by simp
qed

text \<open>
  Claim C6 as stated says that every invocation issues exactly one completion call. With
  the prompt \<^verbatim>\<open>{topic}\<close> the rendering raises \<^verbatim>\<open>KeyError\<close> and no call is issued.
\<close>

theorem generate_dataset_no_call_counterexample:
  "length (snd (generate_dataset default_interpreter format_messages
        (llm_based_data_generator_init (stub_client []) ''{topic}'' None None None None None)
        loan_model 10 None)) \<noteq> 1"
  by code_simp

section \<open>Construction\<close>

text \<open>
  Claim C7. A constructed generator never has an empty language list: with no languages, or
  an empty list, it is \<^verbatim>\<open>["en"]\<close>. With no temperature it is 0.5 and with no seed it is the
  constant 1729. The methods take the generator and return no changed generator, so the
  configuration is the one set by the constructor.
\<close>

theorem init_defaults:
  "languages (llm_based_data_generator_init dc p pm ls t c s) \<noteq> []
   \<and> languages (base_llm_generator_init cls dc ls t c s) \<noteq> []
   \<and> (ls = None \<or> ls = Some [] \<longrightarrow>
        languages (llm_based_data_generator_init dc p pm ls t c s) = [''en'']
        \<and> languages (base_llm_generator_init cls dc ls t c s) = [''en''])
   \<and> (t = None \<longrightarrow>
        llm_temperature (llm_based_data_generator_init dc p pm ls t c s) = 0.5
        \<and> llm_temperature (base_llm_generator_init cls dc ls t c s) = 0.5)
   \<and> (s = None \<longrightarrow>
        llm_seed (llm_based_data_generator_init dc p pm ls t c s) = 1729
        \<and> llm_seed (base_llm_generator_init cls dc ls t c s) = 1729)"
  by (auto simp: llm_based_data_generator_init_def base_llm_generator_init_def or_list_def
        base_llm_generator.defs llm_based_data_generator.defs default_temperature_def Let_def
      split: option.splits)

theorem init_defaults_witness:
  "languages (llm_based_data_generator_init (stub_client []) ''p'' None (Some []) None None None) = [''en'']
   \<and> languages (base_llm_generator_init ''G'' (stub_client []) None None None None) = [''en'']
   \<and> llm_temperature (llm_based_data_generator_init (stub_client []) ''p'' None (Some []) None None None) = 0.5
   \<and> llm_seed (llm_based_data_generator_init (stub_client []) ''p'' None (Some []) None None None) = 1729"
  using init_defaults [of "stub_client []" "''p''" None "Some []" None None None "''G''"]
        init_defaults [of "stub_client []" "''p''" None None None None None "''G''"]
  by simp

text \<open>
  Claim C9. A generator constructed with an explicit temperature keeps it, 0.0 included,
  and every completion call of \<^verbatim>\<open>generate_dataset\<close> carries it; only a temperature that is
  not supplied becomes 0.5.
\<close>

theorem explicit_temperature_honoured:
  "llm_temperature (llm_based_data_generator_init dc p pm ls (Some t) c s) = t
   \<and> (\<forall>call \<in> set (snd (generate_dataset py format_messages
                            (llm_based_data_generator_init dc p pm ls (Some t) c s) model n ct)).
         temperature call = t)
   \<and> llm_temperature (llm_based_data_generator_init dc p pm ls None c s) = 0.5"
  by (auto simp: generate_dataset_def llm_based_data_generator_init_def base_llm_generator_init_def
        base_llm_generator.defs llm_based_data_generator.defs default_temperature_def Let_def
      split: sum.splits)

theorem explicit_temperature_honoured_witness:
  "llm_temperature (llm_based_data_generator_init (stub_client []) ''{num_samples} inputs'' None None
       (Some 0) None None) = 0
   \<and> snd (generate_dataset default_interpreter format_messages
        (llm_based_data_generator_init (stub_client []) ''{num_samples} inputs'' None None (Some 0) None None)
        loan_model 3 None) \<noteq> []
   \<and> list_all (\<lambda>call. temperature call = 0)
        (snd (generate_dataset default_interpreter format_messages
          (llm_based_data_generator_init (stub_client []) ''{num_samples} inputs'' None None (Some 0) None None)
          loan_model 3 None))"
proof -
  have h: "snd (generate_dataset default_interpreter format_messages
        (llm_based_data_generator_init (stub_client []) ''{num_samples} inputs'' None None (Some 0) None None)
        loan_model 3 None) \<noteq> []"
    by code_simp
  from explicit_temperature_honoured [where dc = "stub_client []" and p = "''{num_samples} inputs''"
         and pm = None and ls = None and t = 0 and c = None and s = None and py = default_interpreter
         and model = loan_model and n = 3 and ct = None] h
  show ?thesis by (simp add: list_all_iff)
qed

section \<open>Rendering the prompt\<close>

lemma prepend_text_append: "prepend_text a (prepend_text b r) = prepend_text (a @ b) r"
  by (cases r) (simp_all add: prepend_text_def)

lemma prepend_text_Nil: "prepend_text [] r = r"
  by (cases r) (simp_all add: prepend_text_def)

lemma format_text_literal:
  "format_text kw (escape_braces s @ t) = prepend_text s (format_text kw t)"
proof (induction s)
  case Nil
  show ?case by (simp add: escape_braces_def prepend_text_Nil)
next
  case (Cons c cs)
  have e: "escape_braces (c # cs) = (if c = CHR 0x7B then [c, c] else if c = CHR 0x7D then [c, c] else [c]) @ escape_braces cs"
    by (simp add: escape_braces_def)
  show ?case using Cons.IH
    by (simp add: e prepend_text_append)
qed

lemma format_field_plain:
  "list_all field_char f \<Longrightarrow>
     format_field kw acc (f @ CHR 0x7D # t) =
       (case render_field kw (rev acc @ f) of
          Inl e \<Rightarrow> Inl e
        | Inr v \<Rightarrow> prepend_text v (format_text kw t))"
proof (induction f arbitrary: acc)
  case Nil
  show ?case by simp
next
  case (Cons c cs)
  from Cons.prems have c: "field_char c" and cs: "list_all field_char cs" by simp_all
  from c have "c \<noteq> CHR 0x7D" "c \<noteq> CHR ''!''" "c \<noteq> CHR '':''" "c \<noteq> CHR 0x5B" "\<not> 128 \<le> (of_char c :: int)" "c \<noteq> CHR 0x7B"
    by (simp_all add: field_char_def)
  then show ?case using Cons.IH [OF cs, of "c # acc"] by simp
qed

lemma format_text_field:
  assumes "list_all field_char f"
  shows "format_text kw (CHR 0x7B # f @ CHR 0x7D # t) =
       (case render_field kw f of
          Inl e \<Rightarrow> Inl e
        | Inr v \<Rightarrow> prepend_text v (format_text kw t))"
proof (cases f)
  case Nil
  then show ?thesis by simp
next
  case (Cons d ds)
  with assms have "d \<noteq> CHR 0x7B" by (simp add: field_char_def)
  with Cons format_field_plain [OF assms, of kw "[]" t] show ?thesis by simp
qed

lemma str_format_template_of:
  "list_all plain_piece ps \<Longrightarrow> str_format (template_of ps) kw = render_pieces kw ps"
proof (induction ps)
  case Nil
  show ?case by (simp add: str_format_def)
next
  case (Cons p ps)
  then have IH: "format_text kw (template_of ps) = render_pieces kw ps"
    by (simp add: str_format_def)
  show ?case
  proof (cases p)
    case (Lit s)
    then show ?thesis using IH by (simp add: str_format_def format_text_literal)
  next
    case (Field f)
    with Cons.prems have "list_all field_char f" by simp
    then show ?thesis using IH Field
      by (simp add: str_format_def format_text_field del: format_text.simps split: sum.splits)
  qed
qed


lemma split_dots_head:
  "\<exists>attrs. split_dots acc f = (rev acc @ arg_name f) # attrs"
proof (induction f arbitrary: acc)
  case Nil
  show ?case by (simp add: arg_name_def)
next
  case (Cons c cs)
  from Cons [of "c # acc"] show ?case by (auto simp: arg_name_def)
qed

lemma render_field_unsupplied:
  assumes "map_of kw (arg_name f) = None"
  shows "\<exists>e. render_field kw f = Inl e"
proof -
  from split_dots_head [of "[]" f] obtain attrs where "split_dots [] f = arg_name f # attrs"
    by auto
  with assms show ?thesis by (simp add: render_field_def)
qed

lemma render_field_key_error:
  assumes "map_of kw (arg_name f) = None" and "\<not> list_all is_digit (arg_name f)"
  shows "render_field kw f = Inl (KeyError (arg_name f))"
proof -
  from split_dots_head [of "[]" f] obtain attrs where "split_dots [] f = arg_name f # attrs"
    by auto
  with assms show ?thesis by (simp add: render_field_def)
qed

lemma render_field_cong:
  assumes "map_of kw (arg_name f) = map_of kw' (arg_name f)"
  shows "render_field kw f = render_field kw' f"
proof -
  from split_dots_head [of "[]" f] obtain attrs where "split_dots [] f = arg_name f # attrs"
    by auto
  with assms show ?thesis by (simp add: render_field_def)
qed

lemma prepend_text_Inl: "prepend_text a (Inl e) = Inl e"
  by (simp add: prepend_text_def)

lemma prepend_text_Inr: "prepend_text a (Inr s) = Inr (a @ s)"
  by (simp add: prepend_text_def)

lemma render_pieces_unsupplied:
  "\<exists>p\<in>set ps. unsupplied kw p \<Longrightarrow> \<exists>e. render_pieces kw ps = Inl e"
proof (induction ps)
  case Nil
  then show ?case by simp
next
  case (Cons p ps)
  show ?case
  proof (cases p)
    case (Lit s)
    with Cons obtain e where "render_pieces kw ps = Inl e" by auto
    with Lit show ?thesis by (simp add: prepend_text_Inl)
  next
    case (Field f)
    show ?thesis
    proof (cases "render_field kw f")
      case (Inl e)
      with Field show ?thesis by simp
    next
      case (Inr v)
      with Field render_field_unsupplied [of kw f] have "\<not> unsupplied kw p" by auto
      with Cons obtain e where "render_pieces kw ps = Inl e" by auto
      with Field Inr show ?thesis by (simp add: prepend_text_Inl)
    qed
  qed
qed

lemma render_pieces_values:
  "list_all2 (\<lambda>p v. piece_value kw p = Some v) ps vs \<Longrightarrow> render_pieces kw ps = Inr (concat vs)"
proof (induction ps arbitrary: vs)
  case Nil
  then show ?case by simp
next
  case (Cons p ps)
  from Cons.prems obtain v vs' where vs: "vs = v # vs'" and v: "piece_value kw p = Some v"
    and r: "list_all2 (\<lambda>p v. piece_value kw p = Some v) ps vs'"
    by (auto simp: list_all2_Cons1)
  from Cons.IH [OF r] have IH: "render_pieces kw ps = Inr (concat vs')" .
  show ?case
  proof (cases p)
    case (Lit s)
    with v IH vs show ?thesis by (simp add: prepend_text_Inr)
  next
    case (Field f)
    with v IH vs show ?thesis by (auto simp: prepend_text_Inr split: sum.splits)
  qed
qed

lemma render_pieces_first_missing:
  assumes "list_all (\<lambda>p. piece_value kw p \<noteq> None) pre"
    and "map_of kw (arg_name f) = None" and "\<not> list_all is_digit (arg_name f)"
  shows "render_pieces kw (pre @ Field f # post) = Inl (KeyError (arg_name f))"
  using assms(1)
proof (induction pre)
  case Nil
  show ?case using render_field_key_error [OF assms(2,3)] by simp
next
  case (Cons p pre)
  then have IH: "render_pieces kw (pre @ Field f # post) = Inl (KeyError (arg_name f))"
    and p: "piece_value kw p \<noteq> None" by simp_all
  show ?case
  proof (cases p)
    case (Lit s)
    with IH show ?thesis by (simp add: prepend_text_Inl)
  next
    case (Field g)
    with p IH show ?thesis by (auto simp: prepend_text_Inl split: sum.splits)
  qed
qed

lemma render_pieces_cong:
  "\<forall>p\<in>set ps. \<forall>f. p = Field f \<longrightarrow> map_of kw (arg_name f) = map_of kw' (arg_name f) \<Longrightarrow>
     render_pieces kw ps = render_pieces kw' ps"
proof (induction ps)
  case Nil
  show ?case by simp
next
  case (Cons p ps)
  then have IH: "render_pieces kw ps = render_pieces kw' ps" by simp
  show ?case
  proof (cases p)
    case (Lit s)
    with IH show ?thesis by simp
  next
    case (Field f)
    with Cons.prems have "map_of kw (arg_name f) = map_of kw' (arg_name f)" by simp
    from render_field_cong [OF this] Field IH show ?thesis by (simp split: sum.splits)
  qed
qed

lemma format_messages_kwargs:
  "format_messages self model n ct =
     (case str_format (prompt self) (format_kwargs self model n) of
        Inl e \<Rightarrow> Inl e
      | Inr p \<Rightarrow> seq_add_list (prefix_messages self) [\<lparr>role = ''user'', content = p\<rparr>])"
  by (simp add: format_messages_def format_kwargs_def)

lemma generate_dataset_format_error:
  "fmt self model n ct = Inl e \<Longrightarrow> generate_dataset py fmt self model n ct = (Inl e, [])"
  by (simp add: generate_dataset_def)

text \<open>
  Claim C8. A failure of the rendering is returned by \<^verbatim>\<open>generate_dataset\<close> as it is, with no
  call made to the client. For a template of plain pieces: when some field names an argument
  that \<^verbatim>\<open>_format_messages\<close> does not supply, the rendering fails; when the first such field
  has a name that is not a number, the failure is the \<^verbatim>\<open>KeyError\<close> of that name (the code has no
  exception class of its own for it); and when every piece has a value, the instruction is
  the concatenation of these values, with no field left in it, and it is what is added to
  the prefix messages as the user message.
\<close>

theorem template_error_before_any_call:
  "(format_messages self model n ct = Inl e \<longrightarrow>
      generate_dataset py format_messages self model n ct = (Inl e, []))
   \<and> (list_all plain_piece ps \<and> prompt self = template_of ps
        \<and> (\<exists>p\<in>set ps. unsupplied (format_kwargs self model n) p) \<longrightarrow>
      (\<exists>e'. generate_dataset py format_messages self model n ct = (Inl e', [])))
   \<and> (list_all plain_piece (pre @ Field f # post) \<and> prompt self = template_of (pre @ Field f # post)
        \<and> list_all (\<lambda>p. piece_value (format_kwargs self model n) p \<noteq> None) pre
        \<and> map_of (format_kwargs self model n) (arg_name f) = None
        \<and> \<not> list_all is_digit (arg_name f) \<longrightarrow>
      generate_dataset py format_messages self model n ct = (Inl (KeyError (arg_name f)), []))
   \<and> (list_all plain_piece ps \<and> prompt self = template_of ps
        \<and> list_all2 (\<lambda>p v. piece_value (format_kwargs self model n) p = Some v) ps vs \<longrightarrow>
      str_format (prompt self) (format_kwargs self model n) = Inr (concat vs)
      \<and> format_messages self model n ct
          = seq_add_list (prefix_messages self) [\<lparr>role = ''user'', content = concat vs\<rparr>])"
proof (intro conjI impI)
  assume "format_messages self model n ct = Inl e"
  then show "generate_dataset py format_messages self model n ct = (Inl e, [])"
    by (rule generate_dataset_format_error)
next
  assume a: "list_all plain_piece ps \<and> prompt self = template_of ps
        \<and> (\<exists>p\<in>set ps. unsupplied (format_kwargs self model n) p)"
  then obtain e' where "render_pieces (format_kwargs self model n) ps = Inl e'"
    using render_pieces_unsupplied by blast
  with a have "format_messages self model n ct = Inl e'"
    by (simp add: format_messages_kwargs str_format_template_of)
  then show "\<exists>e'. generate_dataset py format_messages self model n ct = (Inl e', [])"
    using generate_dataset_format_error by blast
next
  assume a: "list_all plain_piece (pre @ Field f # post) \<and> prompt self = template_of (pre @ Field f # post)
        \<and> list_all (\<lambda>p. piece_value (format_kwargs self model n) p \<noteq> None) pre
        \<and> map_of (format_kwargs self model n) (arg_name f) = None
        \<and> \<not> list_all is_digit (arg_name f)"
  then have "render_pieces (format_kwargs self model n) (pre @ Field f # post) = Inl (KeyError (arg_name f))"
    using render_pieces_first_missing by blast
  with a have "format_messages self model n ct = Inl (KeyError (arg_name f))"
    by (simp only: format_messages_kwargs str_format_template_of sum.case)
  then show "generate_dataset py format_messages self model n ct = (Inl (KeyError (arg_name f)), [])"
    by (rule generate_dataset_format_error)
next
  assume a: "list_all plain_piece ps \<and> prompt self = template_of ps
        \<and> list_all2 (\<lambda>p v. piece_value (format_kwargs self model n) p = Some v) ps vs"
  then have r: "render_pieces (format_kwargs self model n) ps = Inr (concat vs)"
    using render_pieces_values by blast
  with a show "str_format (prompt self) (format_kwargs self model n) = Inr (concat vs)"
    by (simp add: str_format_template_of)
  from a r show "format_messages self model n ct
        = seq_add_list (prefix_messages self) [\<lparr>role = ''user'', content = concat vs\<rparr>]"
    by (simp add: format_messages_kwargs str_format_template_of)
qed

theorem template_error_before_any_call_witness:
  "generate_dataset default_interpreter format_messages topic_generator loan_model 10 None = (Inl (KeyError ''topic''), [])
   \<and> format_messages (loan_generator []) loan_model 3 None
       = Inr ([] @ [\<lparr>role = ''user'',
                     content = concat [''Generate '', ''3'', '' inputs for '', ''Loan Approval'', ''.'']\<rparr>])"
proof -
  have h1: "list_all plain_piece ([Lit ''About ''] @ Field ''topic'' # [])
        \<and> prompt topic_generator = template_of ([Lit ''About ''] @ Field ''topic'' # [])
        \<and> list_all (\<lambda>p. piece_value (format_kwargs topic_generator loan_model 10) p \<noteq> None) [Lit ''About '']
        \<and> map_of (format_kwargs topic_generator loan_model 10) (arg_name ''topic'') = None
        \<and> \<not> list_all is_digit (arg_name ''topic'')"
    by code_simp
  have h2: "list_all plain_piece loan_pieces \<and> prompt (loan_generator []) = template_of loan_pieces
        \<and> list_all2 (\<lambda>p v. piece_value (format_kwargs (loan_generator []) loan_model 3) p = Some v)
             loan_pieces [''Generate '', ''3'', '' inputs for '', ''Loan Approval'', ''.'']"
    by code_simp
  have h3: "arg_name ''topic'' = ''topic''"
    by code_simp
  have h4: "prefix_messages (loan_generator []) = ListSeq []"
    by code_simp
  from template_error_before_any_call [where self = topic_generator and model = loan_model and n = 10
         and ct = None and py = default_interpreter and pre = "[Lit ''About '']" and f = "''topic''"
         and post = "[]"]
       template_error_before_any_call [where self = "loan_generator []" and model = loan_model and n = 3
         and ct = None and py = default_interpreter and ps = loan_pieces
         and vs = "[''Generate '', ''3'', '' inputs for '', ''Loan Approval'', ''.'']"]
       h1 h2 h3 h4
  show ?thesis by simp
qed

text \<open>
  Claim C4, as amended. No multi-language clause is appended: the instruction is the prompt
  with its fields replaced, and the language list enters it only as the value of the field
  \<^verbatim>\<open>languages\<close>. For a template of plain pieces none of which names \<^verbatim>\<open>languages\<close>, the messages
  are the same whatever the language list of the generator, of one element or of more.
\<close>

theorem instruction_independent_of_languages:
  assumes "list_all plain_piece ps" and "prompt self = template_of ps"
    and "\<forall>p\<in>set ps. \<not> names_languages p"
  shows "format_messages (self\<lparr>languages := ls\<rparr>) model n ct = format_messages self model n ct"
proof -
  have "render_pieces (format_kwargs (self\<lparr>languages := ls\<rparr>) model n) ps
          = render_pieces (format_kwargs self model n) ps"
  proof (rule render_pieces_cong, intro ballI allI impI)
    fix p f assume "p \<in> set ps" and "p = Field f"
    with assms(3) have "arg_name f \<noteq> ''languages''" by auto
    then show "map_of (format_kwargs (self\<lparr>languages := ls\<rparr>) model n) (arg_name f)
        = map_of (format_kwargs self model n) (arg_name f)"
      by (simp add: format_kwargs_def)
  qed
  with assms(1,2) show ?thesis
    by (simp add: format_messages_kwargs str_format_template_of split: sum.splits)
qed

theorem instruction_independent_of_languages_witness:
  "list_all plain_piece loan_pieces \<and> prompt (loan_generator []) = template_of loan_pieces
   \<and> list_all (\<lambda>p. \<not> names_languages p) loan_pieces
   \<and> format_messages ((loan_generator [])\<lparr>languages := [''en'', ''fr'']\<rparr>) loan_model 3 None
       = format_messages (loan_generator []) loan_model 3 None"
proof -
  have h1: "list_all plain_piece loan_pieces"
    by code_simp
  have h2: "prompt (loan_generator []) = template_of loan_pieces"
    by code_simp
  have h3: "\<forall>p\<in>set loan_pieces. \<not> names_languages p"
    by code_simp
  from instruction_independent_of_languages [OF h1 h2 h3] h1 h2 h3 show ?thesis
    by (simp add: list_all_iff)
qed

text \<open>
  Claim C4 as stated says that with more than one language the instruction contains the
  multi-language clause. The constant \<^verbatim>\<open>LANGUAGE_REQUIREMENT_PROMPT\<close> is used nowhere: with
  the languages \<^verbatim>\<open>en\<close> and \<^verbatim>\<open>fr\<close> and a prompt that does not name them, the instruction has no
  such clause.
\<close>

theorem no_language_clause_counterexample:
  "length (languages bilingual_generator) = 2
   \<and> str_format LANGUAGE_REQUIREMENT_PROMPT [(''languages'', FStr (join '', '' (languages bilingual_generator)))]
       = Inr ''You must generate input using different languages among the following list: en, fr.''
   \<and> format_messages bilingual_generator loan_model 3 None
       = Inr [\<lparr>role = ''user'', content = ''Generate 3 inputs for Loan Approval.''\<rparr>]
   \<and> \<not> contains ''Generate 3 inputs for Loan Approval.''
         ''You must generate input using different languages among the following list: en, fr.''"
  by code_simp

section \<open>The decoder on JSON texts\<close>

text \<open>
  The decoder returns the value of every text of the grammar that is within the limits of
  the interpreter, whatever its layout.
\<close>

lemma json_ws_Cons: "json_ws (c # w) \<longleftrightarrow> is_ws c \<and> json_ws w"
  by (auto simp: json_ws_def is_ws_def)

lemma skip_ws_json_ws: "json_ws w \<Longrightarrow> skip_ws (w @ r) = skip_ws r"
  by (induction w) (simp_all add: json_ws_Cons skip_ws_def)

lemma skip_ws_nonws: "\<not> is_ws c \<Longrightarrow> skip_ws (c # cs) = c # cs"
  by (simp add: skip_ws_def)

lemma digit_table_is_digit:
  "map_of digit_table c = Some n \<Longrightarrow> is_digit c \<and> digit_val c = n"
  by (auto simp: digit_table_def is_digit_def digit_val_def split: if_splits)

lemma digits_is_digit: "digits ds \<Longrightarrow> ds \<noteq> [] \<and> list_all is_digit ds"
  by (auto simp: digits_def list_all_iff dest: digit_table_is_digit)

lemma int_of_digits_snoc: "int_of_digits (ds @ [c]) = 10 * int_of_digits ds + digit_val c"
  by (simp add: int_of_digits_def)

lemma int_of_digits_decimal:
  "list_all (\<lambda>c. map_of digit_table c \<noteq> None) ds \<Longrightarrow> int_of_digits ds = decimal ds"
proof (induction ds rule: rev_induct)
  case Nil
  show ?case by (simp add: int_of_digits_def decimal_def)
next
  case (snoc c ds)
  from snoc.prems obtain n where n: "map_of digit_table c = Some n" by auto
  from digit_table_is_digit [OF n] have "digit_val c = n" by simp
  with snoc n show ?case by (simp add: int_of_digits_snoc decimal_def)
qed

lemma hex_table_hexval: "map_of hex_table c = Some n \<Longrightarrow> hexval c = Some n"
  by (auto simp: hex_table_def digit_table_def hexval_def split: if_splits)

lemma code_point_hex4: "code_point a b c d = Some n \<Longrightarrow> hex4 a b c d = Some n"
proof -
  assume a: "code_point a b c d = Some n"
  then obtain p q r s where h: "map_of hex_table a = Some p" "map_of hex_table b = Some q"
      "map_of hex_table c = Some r" "map_of hex_table d = Some s"
    and n: "n = 4096 * p + 256 * q + 16 * r + s"
    by (auto simp: code_point_def split: option.splits)
  from h [THEN hex_table_hexval] n show ?thesis by (simp add: hex4_def)
qed

lemma utf8_encode_utf8: "utf8_encode n = utf8 n"
  by (simp add: utf8_encode_def utf8_def)

lemma escape_table_unescape: "map_of escape_table e = Some c \<Longrightarrow> unescape e = Some c \<and> e \<noteq> CHR ''u''"
  by (auto simp: escape_table_def unescape_def split: if_splits)

lemma prepend_Inr: "prepend p (Inr (s, r)) = Inr (p @ s, r)"
  by (simp add: prepend_def)

lemma read_escape_unicode:
  assumes h: "hex4 a b c d = Some n"
    and nx: "(\<exists>t'. R = CHR 0x22 # t') \<or> (\<exists>k u. R = jchar_text k @ u \<and> jchar_ok k \<and> \<not> low_escape k)
             \<or> \<not> (0xD800 \<le> n \<and> n \<le> 0xDBFF)"
  shows "read_escape (CHR ''u'' # a # b # c # d # R) = Some (utf8 n, R)"
proof -
  from nx consider (quote) t' where "R = CHR 0x22 # t'"
    | (char) k u where "R = jchar_text k @ u" "jchar_ok k" "\<not> low_escape k"
    | (bmp) "(0xD800 \<le> n \<and> n \<le> 0xDBFF) = False"
    by auto
  then show ?thesis
  proof cases
    case quote
    with h show ?thesis by (auto simp: read_escape_def split: list.splits)
  next
    case bmp
    from h show ?thesis by (simp add: read_escape_def bmp)
  next
    case char
    show ?thesis
    proof (cases k)
      case (Unescaped x)
      with char h show ?thesis by (auto simp: read_escape_def split: list.splits)
    next
      case (Escaped e)
      with char(2) obtain y where "map_of escape_table e = Some y" by auto
      from escape_table_unescape [OF this] have "e \<noteq> CHR ''u''" by simp
      with Escaped char h show ?thesis by (auto simp: read_escape_def split: list.splits)
    next
      case (Unicode e f g i)
      with char(2) obtain m where m: "code_point e f g i = Some m" by auto
      with char(3) Unicode have nl: "(0xDC00 \<le> m \<and> m \<le> 0xDFFF) = False" by simp
      from code_point_hex4 [OF m] Unicode char(1) h show ?thesis
        by (simp add: read_escape_def nl)
    next
      case (SurrogatePair e f g i e' f' g' i')
      with char(2) obtain m where m: "code_point e f g i = Some m" and "0xD800 \<le> m \<and> m \<le> 0xDBFF"
        by (auto split: option.splits)
      then have nl: "(0xDC00 \<le> m \<and> m \<le> 0xDFFF) = False" by simp
      from code_point_hex4 [OF m] SurrogatePair char(1) h show ?thesis
        by (simp add: read_escape_def nl)
    qed
  qed
qed

lemma scanstring_jchar:
  assumes "jchar_ok j" and "scanstring t = Inr (s, r)"
    and "(\<exists>t'. t = CHR 0x22 # t') \<or> (\<exists>k u. t = jchar_text k @ u \<and> jchar_ok k \<and> \<not> low_escape k)
         \<or> \<not> high_escape j"
  shows "scanstring (jchar_text j @ t) = Inr (jchar_value j @ s, r)"
proof (cases j)
  case (Unescaped c)
  with assms show ?thesis by (simp add: prepend_Inr)
next
  case (Escaped e)
  with assms(1) obtain c where c: "map_of escape_table e = Some c" by auto
  from escape_table_unescape [OF c] Escaped c assms(2) show ?thesis
    by (simp add: read_escape_def prepend_Inr)
next
  case (Unicode a b c d)
  with assms(1) obtain n where n: "code_point a b c d = Some n" by auto
  from assms(3) Unicode n
  have "(\<exists>t'. t = CHR 0x22 # t') \<or> (\<exists>k u. t = jchar_text k @ u \<and> jchar_ok k \<and> \<not> low_escape k)
             \<or> \<not> (0xD800 \<le> n \<and> n \<le> 0xDBFF)" by auto
  from read_escape_unicode [OF code_point_hex4 [OF n] this] Unicode n assms(2) show ?thesis
    by (simp add: prepend_Inr utf8_encode_utf8)
next
  case (SurrogatePair a b c d e f g h)
  with assms(1) obtain hi lo where hi: "code_point a b c d = Some hi" and lo: "code_point e f g h = Some lo"
    and r: "0xD800 \<le> hi \<and> hi \<le> 0xDBFF" "0xDC00 \<le> lo \<and> lo \<le> 0xDFFF"
    by (auto split: option.splits)
  from code_point_hex4 [OF hi] code_point_hex4 [OF lo] r SurrogatePair hi lo assms(2) show ?thesis
    by (simp add: read_escape_def prepend_Inr utf8_encode_utf8)
qed

lemma string_ok_Cons: "string_ok (j # cs) \<Longrightarrow> jchar_ok j \<and> string_ok cs"
  by (cases cs) simp_all

lemma scanstring_jchars:
  "string_ok cs \<Longrightarrow>
     scanstring (concat (map jchar_text cs) @ CHR 0x22 # rest) = Inr (string_value cs, rest)"
proof (induction cs rule: string_ok.induct)
  case 1
  show ?case by (simp add: string_value_def)
next
  case (2 j)
  have "scanstring (jchar_text j @ CHR 0x22 # rest) = Inr (jchar_value j @ [], rest)"
    by (rule scanstring_jchar) (use 2 in auto)
  then show ?case by (simp add: string_value_def)
next
  case (3 j k cs)
  from 3 have IH: "scanstring (concat (map jchar_text (k # cs)) @ CHR 0x22 # rest)
                     = Inr (string_value (k # cs), rest)" by simp
  from "3.prems" have j: "jchar_ok j" and n: "\<not> (high_escape j \<and> low_escape k)"
    and k: "jchar_ok k" using string_ok_Cons [of k cs] by simp_all
  have "scanstring (jchar_text j @ concat (map jchar_text (k # cs)) @ CHR 0x22 # rest)
          = Inr (jchar_value j @ string_value (k # cs), rest)"
  proof (rule scanstring_jchar [OF j IH])
    from n k show "(\<exists>t'. concat (map jchar_text (k # cs)) @ CHR 0x22 # rest = CHR 0x22 # t')
       \<or> (\<exists>k' u. concat (map jchar_text (k # cs)) @ CHR 0x22 # rest = jchar_text k' @ u
                  \<and> jchar_ok k' \<and> \<not> low_escape k')
       \<or> \<not> high_escape j"
      by (cases "high_escape j") auto
  qed
  then show ?case by (simp add: string_value_def)
qed

lemma digit_not_special:
  "is_digit c \<Longrightarrow> c \<noteq> CHR 0x22 \<and> c \<noteq> CHR 0x7B \<and> c \<noteq> CHR 0x5B \<and> c \<noteq> CHR ''n'' \<and> c \<noteq> CHR ''t''
     \<and> c \<noteq> CHR ''f'' \<and> c \<noteq> CHR ''N'' \<and> c \<noteq> CHR ''I'' \<and> c \<noteq> CHR ''-'' \<and> c \<noteq> CHR ''+'' \<and> \<not> is_ws c
     \<and> c \<noteq> CHR 0x5D \<and> c \<noteq> CHR 0x7D
     \<and> CHR ''n'' \<noteq> c \<and> CHR ''t'' \<noteq> c \<and> CHR ''f'' \<noteq> c \<and> CHR ''N'' \<noteq> c \<and> CHR ''I'' \<noteq> c
     \<and> CHR ''-'' \<noteq> c \<and> c \<noteq> CHR 0xEF"
  by (auto simp: is_digit_def is_ws_def)

lemma takeWhile_digits:
  "list_all is_digit ds \<Longrightarrow> r = [] \<or> \<not> is_digit (hd r) \<Longrightarrow>
     takeWhile is_digit (ds @ r) = ds \<and> dropWhile is_digit (ds @ r) = r"
  by (induction ds) (auto, (cases r; simp)+)

lemma match_int_text:
  assumes "ip = ''0'' \<or> (digits ip \<and> hd ip \<noteq> CHR ''0'')" and "r = [] \<or> \<not> is_digit (hd r)"
  shows "match_int (ip @ r) = Some (ip, r)"
proof (cases "ip = ''0''")
  case True
  then show ?thesis by (simp add: match_int_def)
next
  case False
  with assms(1) have d: "digits ip" and h: "hd ip \<noteq> CHR ''0''" by simp_all
  from digits_is_digit [OF d] obtain c cs where ip: "ip = c # cs" and a: "list_all is_digit (c # cs)"
    by (cases ip) auto
  from takeWhile_digits [OF a assms(2)] ip h a show ?thesis
    by (simp add: match_int_def)
qed

lemma match_frac_some:
  assumes "digits ds" and "r = [] \<or> \<not> is_digit (hd r)"
  shows "match_frac (CHR ''.'' # ds @ r) = (CHR ''.'' # ds, r)"
proof -
  from digits_is_digit [OF assms(1)] obtain c cs where ds: "ds = c # cs" and a: "list_all is_digit (c # cs)"
    by (cases ds) auto
  from takeWhile_digits [OF a assms(2)] ds a show ?thesis
    by (simp add: match_frac_def)
qed

lemma match_frac_none: "r = [] \<or> hd r \<noteq> CHR ''.'' \<Longrightarrow> match_frac r = ([], r)"
  by (cases r) (auto simp: match_frac_def split: list.splits)

lemma match_exp_some:
  assumes "e = CHR ''e'' \<or> e = CHR ''E''" and "sg = [] \<or> sg = ''+'' \<or> sg = ''-''" and "digits ds"
    and "r = [] \<or> \<not> is_digit (hd r)"
  shows "match_exp (e # sg @ ds @ r) = (e # sg @ ds, r)"
proof -
  from digits_is_digit [OF assms(3)] obtain c cs where ds: "ds = c # cs" and a: "list_all is_digit (c # cs)"
    by (cases ds) auto
  from a have c: "is_digit c" by simp
  note n = digit_not_special [OF c]
  from takeWhile_digits [OF a assms(4)]
  have t: "takeWhile is_digit (c # cs @ r) = c # cs" "dropWhile is_digit (c # cs @ r) = r" by simp_all
  from assms(2) show ?thesis
  proof (elim disjE)
    assume "sg = []"
    with assms(1) n t c show ?thesis by (auto simp: match_exp_def ds)
  next
    assume "sg = ''+''"
    with assms(1) t c show ?thesis by (auto simp: match_exp_def ds)
  next
    assume "sg = ''-''"
    with assms(1) t c show ?thesis by (auto simp: match_exp_def ds)
  qed
qed

lemma match_exp_none: "r = [] \<or> (hd r \<noteq> CHR ''e'' \<and> hd r \<noteq> CHR ''E'') \<Longrightarrow> match_exp r = ([], r)"
  by (cases r) (auto simp: match_exp_def)

lemma value_end_head:
  "value_end r \<Longrightarrow>
     r = [] \<or> (\<not> is_digit (hd r) \<and> hd r \<noteq> CHR ''.'' \<and> hd r \<noteq> CHR ''e'' \<and> hd r \<noteq> CHR ''E'')"
  by (cases r) (auto simp: value_end_def is_digit_def)

lemma value_end_simps:
  "value_end []" "value_end (CHR '','' # s)" "value_end (CHR 0x5D # s)" "value_end (CHR 0x7D # s)"
  by (simp_all add: value_end_def)

lemma value_end_ws: "json_ws b \<Longrightarrow> value_end r \<Longrightarrow> value_end (b @ r)"
  by (cases b) (auto simp: value_end_def json_ws_def)

lemma match_number_text:
  assumes ok: "number_ok ip fp ep" and ve: "value_end rest"
  shows "match_number (number_text neg ip fp ep @ rest) = Some (neg, ip, frac_text fp, exp_text ep, rest)"
proof -
  note h = value_end_head [OF ve]
  have me: "match_exp (exp_text ep @ rest) = (exp_text ep, rest)"
  proof (cases ep)
    case None
    from h have "rest = [] \<or> (hd rest \<noteq> CHR ''e'' \<and> hd rest \<noteq> CHR ''E'')" by auto
    from match_exp_none [OF this] None show ?thesis by (simp add: exp_text_def)
  next
    case (Some x)
    obtain e sg ds where x: "x = (e, sg, ds)" by (cases x)
    from ok Some x have "e = CHR ''e'' \<or> e = CHR ''E''" "sg = [] \<or> sg = ''+'' \<or> sg = ''-''" "digits ds"
      by (simp_all add: number_ok_def)
    from match_exp_some [OF this, of rest] h Some x show ?thesis by (auto simp: exp_text_def)
  qed
  have he: "exp_text ep @ rest = [] \<or> (\<not> is_digit (hd (exp_text ep @ rest)) \<and> hd (exp_text ep @ rest) \<noteq> CHR ''.'')"
  proof (cases ep)
    case None
    with h show ?thesis by (auto simp: exp_text_def)
  next
    case (Some x)
    obtain e sg ds where x: "x = (e, sg, ds)" by (cases x)
    from ok Some x have "e = CHR ''e'' \<or> e = CHR ''E''" by (simp add: number_ok_def)
    with Some x show ?thesis by (auto simp: exp_text_def is_digit_def)
  qed
  have mf: "match_frac (frac_text fp @ exp_text ep @ rest) = (frac_text fp, exp_text ep @ rest)"
  proof (cases fp)
    case None
    with he show ?thesis by (auto simp: frac_text_def match_frac_none)
  next
    case (Some ds)
    with ok have "digits ds" by (simp add: number_ok_def)
    from match_frac_some [OF this, of "exp_text ep @ rest"] he Some show ?thesis
      by (auto simp: frac_text_def)
  qed
  have hf: "frac_text fp @ exp_text ep @ rest = [] \<or> \<not> is_digit (hd (frac_text fp @ exp_text ep @ rest))"
  proof (cases fp)
    case None
    with he show ?thesis by (auto simp: frac_text_def)
  next
    case (Some ds)
    then show ?thesis by (simp add: frac_text_def is_digit_def)
  qed
  from ok have ipok: "ip = ''0'' \<or> (digits ip \<and> hd ip \<noteq> CHR ''0'')" by (simp add: number_ok_def)
  have mi: "match_int (ip @ frac_text fp @ exp_text ep @ rest) = Some (ip, frac_text fp @ exp_text ep @ rest)"
    by (rule match_int_text [OF ipok hf])
  from ipok obtain c cs where ip: "ip = c # cs" and c: "is_digit c"
    using digits_is_digit [of ip] by (cases ip) (auto simp: is_digit_def)
  note n = digit_not_special [OF c]
  have t: "number_text neg ip fp ep @ rest
             = (if neg then ''-'' else []) @ ip @ frac_text fp @ exp_text ep @ rest"
    by (simp add: number_text_def frac_text_def exp_text_def)
  show ?thesis
  proof (cases neg)
    case True
    with mi mf me show ?thesis unfolding t by (simp add: match_number_def)
  next
    case False
    with mi mf me n show ?thesis unfolding t by (simp add: match_number_def ip)
  qed
qed

lemma number_text_head:
  assumes "number_ok ip fp ep"
  shows "\<exists>c t. number_text neg ip fp ep = c # t
           \<and> (is_digit c \<or> (c = CHR ''-'' \<and> (\<exists>c' t'. t = c' # t' \<and> is_digit c')))"
proof -
  from assms have "ip = ''0'' \<or> (digits ip \<and> hd ip \<noteq> CHR ''0'')" by (simp add: number_ok_def)
  then obtain c cs where ip: "ip = c # cs" and c: "is_digit c"
    using digits_is_digit [of ip] by (cases ip) (auto simp: is_digit_def)
  then show ?thesis by (cases neg) (simp_all add: number_text_def)
qed

lemma scan_once_number:
  assumes ok: "json_ok m d (JNumber neg ip fp ep)" and ve: "value_end rest"
  shows "scan_once m d (number_text neg ip fp ep @ rest) = Inr (value_of (JNumber neg ip fp ep), rest)"
proof -
  from ok have nok: "number_ok ip fp ep"
    and lim: "fp = None \<and> ep = None \<longrightarrow> m = 0 \<or> length ip \<le> m" by simp_all
  from nok have "ip = ''0'' \<or> digits ip" by (auto simp: number_ok_def)
  then have "list_all (\<lambda>c. map_of digit_table c \<noteq> None) ip"
  proof
    assume "ip = ''0''"
    then show ?thesis by (simp add: digit_table_def)
  next
    assume "digits ip"
    then show ?thesis by (simp add: digits_def)
  qed
  then have dec: "int_of_digits ip = decimal ip" by (rule int_of_digits_decimal)
  have fe: "frac_text fp = [] \<longleftrightarrow> fp = None" "exp_text ep = [] \<longleftrightarrow> ep = None"
    by (auto simp: frac_text_def exp_text_def split: option.splits)
  have nv: "number_value m neg ip (frac_text fp) (exp_text ep) = Inr (value_of (JNumber neg ip fp ep))"
    using lim dec by (auto simp: number_value_def fe number_text_def frac_text_def exp_text_def)
  from number_text_head [OF nok, of neg] obtain c t where s: "number_text neg ip fp ep = c # t"
    and h: "is_digit c \<or> (c = CHR ''-'' \<and> (\<exists>c' t'. t = c' # t' \<and> is_digit c'))" by blast
  have mn: "match_number (c # t @ rest)
              = Some (neg, ip, frac_text fp, exp_text ep, rest)"
    using match_number_text [OF nok ve, of neg] s by simp
  from h show ?thesis
  proof
    assume "is_digit c"
    from digit_not_special [OF this] show ?thesis using mn nv
      by (simp add: s scan_scalar_def del: value_of.simps)
  next
    assume "c = CHR ''-'' \<and> (\<exists>c' t'. t = c' # t' \<and> is_digit c')"
    then obtain c' t' where c: "c = CHR ''-''" and t: "t = c' # t'" and d: "is_digit c'" by blast
    from digit_not_special [OF d] show ?thesis using mn nv c t
      by (simp add: s scan_scalar_def del: value_of.simps)
  qed
qed

lemma text_of_head:
  assumes "json_ok m d v"
  shows "\<exists>c t. text_of v = c # t \<and> \<not> is_ws c \<and> c \<noteq> CHR 0x5D \<and> c \<noteq> CHR 0x7D \<and> c \<noteq> CHR 0xEF"
proof (cases v)
  case (JNumber neg ip fp ep)
  with assms have "number_ok ip fp ep" by simp
  from number_text_head [OF this, of neg] obtain c t where "number_text neg ip fp ep = c # t"
    and "is_digit c \<or> c = CHR ''-''" by blast
  moreover have "is_digit c \<Longrightarrow> \<not> is_ws c \<and> c \<noteq> CHR 0x5D \<and> c \<noteq> CHR 0x7D \<and> c \<noteq> CHR 0xEF"
    using digit_not_special [of c] by simp
  moreover have "c = CHR ''-'' \<Longrightarrow> \<not> is_ws c \<and> c \<noteq> CHR 0x5D \<and> c \<noteq> CHR 0x7D \<and> c \<noteq> CHR 0xEF"
    by (simp add: is_ws_def)
  ultimately show ?thesis using JNumber by auto
qed (simp_all add: is_ws_def string_text_def)

lemma skip_ws_element_text:
  assumes "element_ok m d (Element a v b)"
  shows "skip_ws (element_text (Element a v b) @ r) = text_of v @ b @ r"
proof -
  from assms have a: "json_ws a" and v: "json_ok m d v" by simp_all
  from text_of_head [OF v] obtain c t where "text_of v = c # t" "\<not> is_ws c" by blast
  then show ?thesis by (simp add: skip_ws_json_ws [OF a] skip_ws_nonws)
qed

lemma skip_ws_element_head:
  assumes "element_ok m d e"
  shows "\<exists>c t. skip_ws (element_text e @ r) = c # t \<and> c \<noteq> CHR 0x5D"
proof -
  obtain a v b where e: "e = Element a v b" by (cases e)
  from assms e have v: "json_ok m d v" by simp
  from text_of_head [OF v] obtain c t where "text_of v = c # t" "c \<noteq> CHR 0x5D" by blast
  with skip_ws_element_text [of m d a v b r] assms e show ?thesis by simp
qed

lemma commas_Cons: "\<exists>y. commas (x # xs) = x @ y"
  by (cases xs) simp_all

lemma skip_ws_value_end:
  "skip_ws (CHR '','' # s) = CHR '','' # s" "skip_ws (CHR 0x5D # s) = CHR 0x5D # s"
  "skip_ws (CHR 0x7D # s) = CHR 0x7D # s" "skip_ws (CHR '':'' # s) = CHR '':'' # s"
  "skip_ws (CHR 0x22 # s) = CHR 0x22 # s"
  by (simp_all add: skip_ws_def is_ws_def)

lemma parse_array_elements:
  assumes "es \<noteq> []"
    and "\<And>e rest. e \<in> set es \<Longrightarrow> value_end rest \<Longrightarrow>
           \<exists>r'. scan_once m d (skip_ws (element_text e @ rest)) = Inr (element_value e, r')
                 \<and> skip_ws r' = skip_ws rest"
  shows "parse_array m d (skip_ws (commas (map element_text es) @ CHR 0x5D # rest))
           = Inr (map element_value es, rest)"
  using assms
proof (induction es rule: list_nonempty_induct)
  case (single e)
  from single(1) [of e "CHR 0x5D # rest"] obtain r'
    where s: "scan_once m d (skip_ws (element_text e @ CHR 0x5D # rest)) = Inr (element_value e, r')"
      and k: "skip_ws r' = CHR 0x5D # rest"
    by (auto simp: value_end_simps skip_ws_value_end)
  show ?case by (subst parse_array_unfold) (simp add: s k)
next
  case (cons e es)
  define X where "X = commas (map element_text es) @ CHR 0x5D # rest"
  from cons(1) obtain e2 es2 where es: "es = e2 # es2" by (cases es) auto
  have t: "commas (map element_text (e # es)) @ CHR 0x5D # rest = element_text e @ CHR '','' # X"
    by (simp add: es X_def)
  from cons(3) [of e "CHR '','' # X"] obtain r'
    where s: "scan_once m d (skip_ws (element_text e @ CHR '','' # X)) = Inr (element_value e, r')"
      and k: "skip_ws r' = CHR '','' # X"
    by (auto simp: value_end_simps skip_ws_value_end)
  have "parse_array m d (skip_ws (commas (map element_text es) @ CHR 0x5D # rest))
          = Inr (map element_value es, rest)"
    by (rule cons(2)) (rule cons(3), simp_all)
  then have IH: "parse_array m d (skip_ws X) = Inr (map element_value es, rest)"
    by (simp add: X_def)
  show ?case unfolding t by (subst parse_array_unfold) (simp add: s k IH)
qed

lemma parse_object_members:
  assumes "ms \<noteq> []"
    and "\<And>x. x \<in> set ms \<Longrightarrow> member_ok m d x"
    and "\<And>a k b e rest. Member a k b e \<in> set ms \<Longrightarrow> value_end rest \<Longrightarrow>
           \<exists>r'. scan_once m d (skip_ws (element_text e @ rest)) = Inr (element_value e, r')
                 \<and> skip_ws r' = skip_ws rest"
  shows "parse_object m d (skip_ws (commas (map member_text ms) @ CHR 0x7D # rest))
           = Inr (map member_value ms, rest)"
  using assms
proof (induction ms rule: list_nonempty_induct)
  case (single x)
  obtain a k b e where x: "x = Member a k b e" by (cases x)
  from single(1) [of x] x have a: "json_ws a" and k: "string_ok k" and b: "json_ws b"
    by simp_all
  define Z where "Z = element_text e @ CHR 0x7D # rest"
  have t: "skip_ws (commas (map member_text [x]) @ CHR 0x7D # rest)
             = CHR 0x22 # concat (map jchar_text k) @ CHR 0x22 # b @ CHR '':'' # Z"
    by (simp add: x Z_def string_text_def skip_ws_json_ws [OF a] skip_ws_value_end)
  have ss: "scanstring (concat (map jchar_text k) @ CHR 0x22 # b @ CHR '':'' # Z)
              = Inr (string_value k, b @ CHR '':'' # Z)"
    by (rule scanstring_jchars [OF k])
  have sb: "skip_ws (b @ CHR '':'' # Z) = CHR '':'' # Z"
    by (simp add: skip_ws_json_ws [OF b] skip_ws_value_end)
  from single(2) [of a k b e "CHR 0x7D # rest"] x obtain r'
    where s: "scan_once m d (skip_ws Z) = Inr (element_value e, r')"
      and kk: "skip_ws r' = CHR 0x7D # rest"
    by (auto simp: value_end_simps skip_ws_value_end Z_def)
  show ?case unfolding t by (subst parse_object_unfold) (simp add: ss sb s kk x)
next
  case (cons x ms)
  obtain a k b e where x: "x = Member a k b e" by (cases x)
  from cons(3) [of x] x have a: "json_ws a" and k: "string_ok k" and b: "json_ws b"
    by simp_all
  define X where "X = commas (map member_text ms) @ CHR 0x7D # rest"
  define Z where "Z = element_text e @ CHR '','' # X"
  from cons(1) obtain x2 ms2 where ms: "ms = x2 # ms2" by (cases ms) auto
  have t: "skip_ws (commas (map member_text (x # ms)) @ CHR 0x7D # rest)
             = CHR 0x22 # concat (map jchar_text k) @ CHR 0x22 # b @ CHR '':'' # Z"
    by (simp add: x ms Z_def X_def string_text_def skip_ws_json_ws [OF a] skip_ws_value_end)
  have ss: "scanstring (concat (map jchar_text k) @ CHR 0x22 # b @ CHR '':'' # Z)
              = Inr (string_value k, b @ CHR '':'' # Z)"
    by (rule scanstring_jchars [OF k])
  have sb: "skip_ws (b @ CHR '':'' # Z) = CHR '':'' # Z"
    by (simp add: skip_ws_json_ws [OF b] skip_ws_value_end)
  from cons(4) [of a k b e "CHR '','' # X"] x obtain r'
    where s: "scan_once m d (skip_ws Z) = Inr (element_value e, r')"
      and kk: "skip_ws r' = CHR '','' # X"
    by (auto simp: value_end_simps skip_ws_value_end Z_def)
  have "parse_object m d (skip_ws (commas (map member_text ms) @ CHR 0x7D # rest))
          = Inr (map member_value ms, rest)"
  proof (rule cons(2))
    fix y assume "y \<in> set ms"
    then show "member_ok m d y" using cons(3) by simp
  next
    fix a k b e r assume i: "Member a k b e \<in> set ms" and v: "value_end r"
    show "\<exists>r'. scan_once m d (skip_ws (element_text e @ r)) = Inr (element_value e, r')
                 \<and> skip_ws r' = skip_ws r"
      by (rule cons(4) [of a k b e r]) (simp_all add: i v)
  qed
  then have IH: "parse_object m d (skip_ws X) = Inr (map member_value ms, rest)"
    by (simp add: X_def)
  show ?case unfolding t by (subst parse_object_unfold) (simp add: ss sb s kk IH x)
qed

lemma dict_set_map:
  "distinct ks \<Longrightarrow>
     dict_set (map (\<lambda>x. (x, f x)) ks) k v
       = map (\<lambda>x. (x, if x = k then v else f x)) (if k \<in> set ks then ks else ks @ [k])"
proof (induction ks)
  case Nil
  show ?case by simp
next
  case (Cons x ks)
  show ?case
  proof (cases "x = k")
    case True
    with Cons.prems have "k \<notin> set ks" by simp
    then have "map (\<lambda>x. (x, f x)) ks = map (\<lambda>x. (x, if x = k then v else f x)) ks"
      by (intro map_cong) auto
    with True show ?thesis by simp
  next
    case False
    with Cons show ?thesis by simp
  qed
qed

lemma dict_of_pairs_snoc: "dict_of_pairs (kvs @ [(k, v)]) = dict_set (dict_of_pairs kvs) k v"
  by (simp add: dict_of_pairs_def)

lemma dict_of_pairs_py_dict: "dict_of_pairs kvs = py_dict kvs"
proof (induction kvs rule: rev_induct)
  case Nil
  show ?case by (simp add: dict_of_pairs_def py_dict_def)
next
  case (snoc kv kvs)
  obtain k v where kv: "kv = (k, v)" by (cases kv)
  define ks where "ks = rev (remdups (rev (map fst kvs)))"
  define f where "f = (\<lambda>x. case map_of (rev kvs) x of None \<Rightarrow> PyNone | Some v \<Rightarrow> v)"
  have d: "distinct ks" by (simp add: ks_def)
  have s: "set ks = fst ` set kvs" by (simp add: ks_def)
  have "dict_of_pairs (kvs @ [kv]) = dict_set (map (\<lambda>x. (x, f x)) ks) k v"
    using snoc.IH by (simp add: kv dict_of_pairs_snoc py_dict_def ks_def f_def)
  also have "\<dots> = map (\<lambda>x. (x, if x = k then v else f x)) (if k \<in> set ks then ks else ks @ [k])"
    by (rule dict_set_map [OF d])
  also have "\<dots> = py_dict (kvs @ [kv])"
    using s by (auto simp: py_dict_def kv ks_def f_def)
  finally show ?case .
qed

lemma scan_once_text_all:
  "(\<forall>d rest. json_ok m d v \<longrightarrow> (is_number v \<longrightarrow> value_end rest) \<longrightarrow>
       scan_once m d (text_of v @ rest) = Inr (value_of v, rest))
   \<and> (\<forall>d rest. element_ok m d e \<longrightarrow> value_end rest \<longrightarrow>
       (\<exists>r'. scan_once m d (skip_ws (element_text e @ rest)) = Inr (element_value e, r')
             \<and> skip_ws r' = skip_ws rest))
   \<and> (\<forall>d rest. member_ok m d x \<longrightarrow> value_end rest \<longrightarrow>
       (case x of Member a k b e \<Rightarrow>
          \<exists>r'. scan_once m d (skip_ws (element_text e @ rest)) = Inr (element_value e, r')
                \<and> skip_ws r' = skip_ws rest))"
proof (rule jvalue_jelement_jmember.induct [where ?jvalue = v and ?jelement = e and ?jmember = x],
       goal_cases)
  case 1
  show ?case by (simp add: scan_scalar_def)
next
  case 2
  show ?case by (simp add: scan_scalar_def)
next
  case 3
  show ?case by (simp add: scan_scalar_def)
next
  case (4 neg ip fp ep)
  show ?case using scan_once_number [of m _ neg ip fp ep] by simp
next
  case (5 cs)
  show ?case by (simp add: string_text_def scanstring_jchars)
next
  case (6 w)
  show ?case
  proof (intro allI impI)
    fix d rest assume "json_ok m d (JEmptyArray w)"
    then obtain n where d: "d = Suc n" and w: "json_ws w" by (cases d) auto
    show "scan_once m d (text_of (JEmptyArray w) @ rest) = Inr (value_of (JEmptyArray w), rest)"
      by (simp add: d skip_ws_json_ws [OF w] skip_ws_value_end)
  qed
next
  case (7 es)
  show ?case
  proof (intro allI impI)
    fix d rest assume "json_ok m d (JArray es)"
    then obtain n where d: "d = Suc n" and ne: "es \<noteq> []"
      and ok: "list_all (element_ok m n) es" by (cases d) auto
    define T where "T = commas (map element_text es) @ CHR 0x5D # rest"
    have pa: "parse_array m n (skip_ws T) = Inr (map element_value es, rest)"
      unfolding T_def
    proof (rule parse_array_elements [OF ne])
      fix e r assume e: "e \<in> set es" and r: "value_end r"
      from ok e have "element_ok m n e" by (simp add: list_all_iff)
      with 7 [OF e] r
      show "\<exists>r'. scan_once m n (skip_ws (element_text e @ r)) = Inr (element_value e, r')
                   \<and> skip_ws r' = skip_ws r" by blast
    qed
    from ne obtain e es' where es: "es = e # es'" by (cases es) auto
    from ok es have eok: "element_ok m n e" by simp
    from commas_Cons [of "element_text e" "map element_text es'"] obtain y
      where y: "commas (map element_text es) = element_text e @ y" by (auto simp: es)
    from skip_ws_element_head [OF eok, of "y @ CHR 0x5D # rest"] obtain c t
      where sk: "skip_ws T = c # t" and c: "c \<noteq> CHR 0x5D" by (auto simp: T_def y)
    have "text_of (JArray es) @ rest = CHR 0x5B # T" by (simp add: T_def)
    then show "scan_once m d (text_of (JArray es) @ rest) = Inr (value_of (JArray es), rest)"
      using pa sk c by (simp add: d)
  qed
next
  case (8 w)
  show ?case
  proof (intro allI impI)
    fix d rest assume "json_ok m d (JEmptyObject w)"
    then obtain n where d: "d = Suc n" and w: "json_ws w" by (cases d) auto
    show "scan_once m d (text_of (JEmptyObject w) @ rest) = Inr (value_of (JEmptyObject w), rest)"
      by (simp add: d skip_ws_json_ws [OF w] skip_ws_value_end)
  qed
next
  case (9 ms)
  show ?case
  proof (intro allI impI)
    fix d rest assume "json_ok m d (JObject ms)"
    then obtain n where d: "d = Suc n" and ne: "ms \<noteq> []"
      and ok: "list_all (member_ok m n) ms" by (cases d) auto
    define T where "T = commas (map member_text ms) @ CHR 0x7D # rest"
    have po: "parse_object m n (skip_ws T) = Inr (map member_value ms, rest)"
      unfolding T_def
    proof (rule parse_object_members [OF ne])
      fix x assume "x \<in> set ms"
      with ok show "member_ok m n x" by (simp add: list_all_iff)
    next
      fix a k b e r assume x: "Member a k b e \<in> set ms" and r: "value_end r"
      from ok have "\<forall>y\<in>set ms. member_ok m n y" by (simp only: list_all_iff)
      with x have "member_ok m n (Member a k b e)" by blast
      with 9 [OF x] r
      show "\<exists>r'. scan_once m n (skip_ws (element_text e @ r)) = Inr (element_value e, r')
                   \<and> skip_ws r' = skip_ws r" by fastforce
    qed
    from ne obtain x ms' where ms: "ms = x # ms'" by (cases ms) auto
    obtain a k b e where x: "x = Member a k b e" by (cases x)
    from ok ms x have a: "json_ws a" by simp
    from commas_Cons [of "member_text x" "map member_text ms'"] obtain y
      where y: "commas (map member_text ms) = member_text x @ y" by (auto simp: ms)
    have sk: "skip_ws T = CHR 0x22 # concat (map jchar_text k) @ CHR 0x22 # b @ CHR '':'' # element_text e @ y @ CHR 0x7D # rest"
      by (simp add: T_def y x string_text_def skip_ws_json_ws [OF a] skip_ws_value_end)
    note dp = dict_of_pairs_py_dict [of "map member_value ms"]
    have "text_of (JObject ms) @ rest = CHR 0x7B # T" by (simp add: T_def)
    then show "scan_once m d (text_of (JObject ms) @ rest) = Inr (value_of (JObject ms), rest)"
      using po sk dp by (simp add: d)
  qed
next
  case (10 a v b)
  show ?case
  proof (intro allI impI)
    fix d rest assume ok: "element_ok m d (Element a v b)" and ve: "value_end rest"
    from ok have a: "json_ws a" and v: "json_ok m d v" and b: "json_ws b" by simp_all
    have "value_end (b @ rest)" by (rule value_end_ws [OF b ve])
    with 10 v have "scan_once m d (text_of v @ b @ rest) = Inr (value_of v, b @ rest)" by simp
    with skip_ws_element_text [OF ok, of rest] skip_ws_json_ws [OF b, of rest]
    show "\<exists>r'. scan_once m d (skip_ws (element_text (Element a v b) @ rest))
                  = Inr (element_value (Element a v b), r') \<and> skip_ws r' = skip_ws rest"
      by simp
  qed
next
  case (11 a k b e)
  then show ?case by simp
qed

lemma scan_once_text:
  "json_ok m d v \<Longrightarrow> is_number v \<longrightarrow> value_end rest \<Longrightarrow>
     scan_once m d (text_of v @ rest) = Inr (value_of v, rest)"
  using scan_once_text_all [of m v] by blast

lemma json_ws_Nil: "json_ws []"
  by (simp add: json_ws_def)

lemma json_loads_text:
  assumes "element_ok (int_max_str_digits py) (recursion_limit py) doc"
  shows "json_loads py (element_text doc) = Inr (element_value doc)"
proof -
  obtain a v b where doc: "doc = Element a v b" by (cases doc)
  from assms doc have a: "json_ws a" and v: "json_ok (int_max_str_digits py) (recursion_limit py) v"
    and b: "json_ws b" by simp_all
  from text_of_head [OF v] obtain c t where t: "text_of v = c # t" and c: "c \<noteq> CHR 0xEF" by blast
  have bom: "\<not> prefix [CHR 0xEF, CHR 0xBB, CHR 0xBF] (a @ text_of v @ b)"
  proof (cases a)
    case Nil
    with t c show ?thesis by simp
  next
    case (Cons x xs)
    with a have "is_ws x" by (simp add: json_ws_Cons)
    then have "x \<noteq> CHR 0xEF" by (auto simp: is_ws_def)
    with Cons show ?thesis by simp
  qed
  have sk: "skip_ws (a @ text_of v @ b) = text_of v @ b"
    using skip_ws_element_text [OF assms [unfolded doc], of "[]"] by simp
  have "value_end (b @ [])" by (rule value_end_ws [OF b]) (simp add: value_end_simps)
  then have "scan_once (int_max_str_digits py) (recursion_limit py) (text_of v @ b) = Inr (value_of v, b)"
    using scan_once_text [OF v, of b] by simp
  moreover have "skip_ws b = []" using skip_ws_json_ws [OF b, of "[]"] by (simp add: skip_ws_def)
  ultimately show ?thesis using bom sk by (simp add: json_loads_def doc)
qed

lemma json_loads_trailing_text:
  assumes "element_ok (int_max_str_digits py) (recursion_limit py) doc"
    and "element_value doc = PyDict kvs" and "g \<noteq> []" and "\<not> json_ws [hd g]"
  shows "json_loads py (element_text doc @ g) = Inl JSONDecodeError"
proof -
  obtain a v b where doc: "doc = Element a v b" by (cases doc)
  from assms doc have a: "json_ws a" and v: "json_ok (int_max_str_digits py) (recursion_limit py) v"
    and b: "json_ws b" by simp_all
  from assms(2) doc have nn: "\<not> is_number v" by (cases v) (auto split: if_splits)
  from text_of_head [OF v] obtain c t where t: "text_of v = c # t" and c: "c \<noteq> CHR 0xEF" by blast
  have bom: "\<not> prefix [CHR 0xEF, CHR 0xBB, CHR 0xBF] (a @ text_of v @ b @ g)"
  proof (cases a)
    case Nil
    with t c show ?thesis by simp
  next
    case (Cons x xs)
    with a have "is_ws x" by (simp add: json_ws_Cons)
    then have "x \<noteq> CHR 0xEF" by (auto simp: is_ws_def)
    with Cons show ?thesis by simp
  qed
  have sk: "skip_ws (a @ text_of v @ b @ g) = text_of v @ b @ g"
    using skip_ws_element_text [OF assms(1) [unfolded doc], of g] by simp
  have sc: "scan_once (int_max_str_digits py) (recursion_limit py) (text_of v @ b @ g) = Inr (value_of v, b @ g)"
    using scan_once_text [OF v, of "b @ g"] nn by simp
  from assms(3,4) obtain x xs where g: "g = x # xs" and x: "\<not> is_ws x"
    by (cases g) (auto simp: json_ws_Cons json_ws_Nil)
  have "skip_ws (b @ g) = g" by (simp add: skip_ws_json_ws [OF b] g skip_ws_nonws [OF x])
  with bom sk sc assms(3) show ?thesis by (simp add: json_loads_def doc)
qed

text \<open>
  Claim C2, as amended. The completion is a JSON text within the limits of the interpreter
  (arrays and objects nested no deeper than the calls it still allows, ints of no more
  digits than it converts) that stands for an object whose member \<^verbatim>\<open>inputs\<close> is an array. The
  parser returns the records of that array, each with the value its text stands for, in the
  order of the text, whatever the white space and the escapes the text is written with. The
  same text followed by anything other than white space is refused as a whole, with
  \<^verbatim>\<open>LLMGenerationError\<close>: no part of it is returned.
\<close>

theorem parse_output_round_trip:
  assumes "element_ok (int_max_str_digits py) (recursion_limit py) doc"
    and "element_value doc = PyDict kvs"
    and "map_of kvs ''inputs'' = Some (PyList records)"
    and "output_key self = ''inputs''"
  shows "parse_output py self \<lparr>role = r, content = element_text doc\<rparr> = Inr (PyList records)
     \<and> (g \<noteq> [] \<and> \<not> json_ws [hd g] \<longrightarrow>
          parse_output py self \<lparr>role = r, content = element_text doc @ g\<rparr>
            = Inl (LLMGenerationError ''Could not parse generated data'' JSONDecodeError))"
proof (intro conjI impI)
  from json_loads_text [OF assms(1)] assms(2,3,4)
  show "parse_output py self \<lparr>role = r, content = element_text doc\<rparr> = Inr (PyList records)"
    by (simp add: parse_output_def)
next
  assume "g \<noteq> [] \<and> \<not> json_ws [hd g]"
  then have "json_loads py (element_text doc @ g) = Inl JSONDecodeError"
    using json_loads_trailing_text [OF assms(1,2)] by simp
  then show "parse_output py self \<lparr>role = r, content = element_text doc @ g\<rparr>
            = Inl (LLMGenerationError ''Could not parse generated data'' JSONDecodeError)"
    by (simp add: parse_output_def wrap_def)
qed

theorem parse_output_round_trip_witness:
  \<open>element_ok (int_max_str_digits default_interpreter) (recursion_limit default_interpreter) loan_doc
   \<and> element_value loan_doc = PyDict [(''inputs'', PyList loan_records)]
   \<and> map_of [(''inputs'', PyList loan_records)] ''inputs'' = Some (PyList loan_records)
   \<and> output_key (loan_generator []) = ''inputs''
   \<and> element_text loan_doc
       = '' {'' @ [CHR 0x09] @ ''"inputs"'' @ [CHR 0x0A] @ '':'' @ [CHR 0x0D] @ ''[{"income": 50000, "n'' @ [CHR 0x5C] @ ''u0061me" : "Zo'' @ [CHR 0x5C] @ ''u00E9'' @ [CHR 0x5C] @ ''n'' @ [CHR 0x5C] @ ''"'' @ [CHR 0xC3, CHR 0xA9, CHR 0x5C] @ ''ud83d'' @ [CHR 0x5C] @ ''ude00","income":52000},"'' @ [CHR 0x5C] @ ''uD800x", -1.50e+3, -0'' @ [CHR 0x09] @ '',[], { }, true, false,'' @ [CHR 0x0A] @ ''null'' @ [CHR 0x0D, CHR 0x0A] @ ''] }'' @ [CHR 0x0A]
   \<and> parse_output default_interpreter (loan_generator [])
         \<lparr>role = ''assistant'', content = element_text loan_doc\<rparr>
       = Inr (PyList loan_records)
   \<and> parse_output default_interpreter (loan_generator [])
         \<lparr>role = ''assistant'', content = element_text loan_doc @ ''{"inputs": []}''\<rparr>
       = Inl (LLMGenerationError ''Could not parse generated data'' JSONDecodeError)\<close>
proof -
  have h1: "element_ok (int_max_str_digits default_interpreter) (recursion_limit default_interpreter) loan_doc"
    by code_simp
  have h2: "element_value loan_doc = PyDict [(''inputs'', PyList loan_records)]"
    by code_simp
  have h3: "map_of [(''inputs'', PyList loan_records)] ''inputs'' = Some (PyList loan_records)"
    by simp
  have h4: "output_key (loan_generator []) = ''inputs''"
    by code_simp
  have h5: \<open>element_text loan_doc
       = '' {'' @ [CHR 0x09] @ ''"inputs"'' @ [CHR 0x0A] @ '':'' @ [CHR 0x0D] @ ''[{"income": 50000, "n'' @ [CHR 0x5C] @ ''u0061me" : "Zo'' @ [CHR 0x5C] @ ''u00E9'' @ [CHR 0x5C] @ ''n'' @ [CHR 0x5C] @ ''"'' @ [CHR 0xC3, CHR 0xA9, CHR 0x5C] @ ''ud83d'' @ [CHR 0x5C] @ ''ude00","income":52000},"'' @ [CHR 0x5C] @ ''uD800x", -1.50e+3, -0'' @ [CHR 0x09] @ '',[], { }, true, false,'' @ [CHR 0x0A] @ ''null'' @ [CHR 0x0D, CHR 0x0A] @ ''] }'' @ [CHR 0x0A]\<close>
    by code_simp
  have h6: \<open>''{"inputs": []}'' \<noteq> [] \<and> \<not> json_ws [hd ''{"inputs": []}'']\<close>
    by code_simp
  from parse_output_round_trip [OF h1 h2 h3 h4, of "''assistant''" \<open>''{"inputs": []}''\<close>] h1 h2 h3 h4 h5 h6
  show ?thesis by simp
qed

lemma scan_once_long_int:
  assumes nok: "number_ok ip None None" and m: "m \<noteq> 0" "m < length ip" and ve: "value_end rest"
  shows "scan_once m d (number_text neg ip None None @ rest) = Inl ValueError"
proof -
  have nv: "number_value m neg ip (frac_text None) (exp_text None) = Inl ValueError"
    using m by (simp add: number_value_def frac_text_def exp_text_def)
  from number_text_head [OF nok, of neg] obtain c t where s: "number_text neg ip None None = c # t"
    and h: "is_digit c \<or> (c = CHR ''-'' \<and> (\<exists>c' t'. t = c' # t' \<and> is_digit c'))" by blast
  have mn: "match_number (c # t @ rest) = Some (neg, ip, frac_text None, exp_text None, rest)"
    using match_number_text [OF nok ve, of neg] s by simp
  from h show ?thesis
  proof
    assume "is_digit c"
    from digit_not_special [OF this] show ?thesis using mn nv by (simp add: s scan_scalar_def)
  next
    assume "c = CHR ''-'' \<and> (\<exists>c' t'. t = c' # t' \<and> is_digit c')"
    then obtain c' t' where c: "c = CHR ''-''" and t: "t = c' # t'" and d: "is_digit c'" by blast
    from digit_not_special [OF d] show ?thesis using mn nv c t by (simp add: s scan_scalar_def)
  qed
qed

lemma json_loads_long_int:
  assumes "digits ip" and "hd ip \<noteq> CHR ''0''" and "m \<noteq> 0" and "m < length ip"
  shows \<open>json_loads \<lparr>recursion_limit = Suc (Suc n), int_max_str_digits = m\<rparr> (''{"inputs": ['' @ ip @ '']}'')
           = Inl ValueError\<close>
proof -
  from assms(1,2) have nok: "number_ok ip None None" by (simp add: number_ok_def)
  from digits_is_digit [OF assms(1)] obtain c cs where ip: "ip = c # cs" and c: "is_digit c"
    by (cases ip) auto
  note n = digit_not_special [OF c]
  have s1: "scan_once m n (c # cs @ '']}'') = Inl ValueError"
    using scan_once_long_int [OF nok assms(3,4), of "'']}''" n False]
    by (simp add: number_text_def frac_text_def exp_text_def value_end_simps ip)
  have pa: "parse_array m n (c # cs @ '']}'') = Inl ValueError"
    by (subst parse_array_unfold) (simp only: s1 sum.case)
  have s2: "scan_once m (Suc n) (CHR 0x5B # c # cs @ '']}'') = Inl ValueError"
    using n by (simp add: skip_ws_nonws pa)
  have ss: \<open>scanstring (''inputs": ['' @ c # cs @ '']}'') = Inr (''inputs'', '': ['' @ c # cs @ '']}'')\<close>
    by (simp add: prepend_def)
  have po: \<open>parse_object m (Suc n) (''"inputs": ['' @ c # cs @ '']}'') = Inl ValueError\<close>
    using ss s2 by (subst parse_object_unfold) (simp add: skip_ws_def is_ws_def)
  have s3: \<open>scan_once m (Suc (Suc n)) (''{"inputs": ['' @ c # cs @ '']}'') = Inl ValueError\<close>
    using po by (simp add: skip_ws_def is_ws_def)
  then show ?thesis by (simp add: json_loads_def skip_ws_def is_ws_def ip)
qed

lemma scan_once_too_deep:
  "scan_once m d (replicate (Suc d) (CHR 0x5B) @ rest) = Inl RecursionError"
proof (induction d arbitrary: rest)
  case 0
  show ?case by simp
next
  case (Suc d)
  have "parse_array m d (replicate (Suc d) (CHR 0x5B) @ rest) = Inl RecursionError"
    by (subst parse_array_unfold) (simp only: Suc.IH sum.case)
  then show ?case by (simp add: skip_ws_def is_ws_def)
qed

lemma json_loads_too_deep:
  \<open>json_loads \<lparr>recursion_limit = Suc d, int_max_str_digits = m\<rparr>
       (''{"inputs": '' @ replicate (Suc d) (CHR 0x5B) @ rest) = Inl RecursionError\<close>
proof -
  have ss: \<open>scanstring (''inputs": '' @ replicate (Suc d) (CHR 0x5B) @ rest)
              = Inr (''inputs'', '': '' @ replicate (Suc d) (CHR 0x5B) @ rest)\<close>
    by (simp add: prepend_def)
  have s2: "scan_once m d (CHR 0x5B # replicate d (CHR 0x5B) @ rest) = Inl RecursionError"
    using scan_once_too_deep [of m d rest] by simp
  have po: \<open>parse_object m d (''"inputs": '' @ replicate (Suc d) (CHR 0x5B) @ rest) = Inl RecursionError\<close>
    using ss s2 by (subst parse_object_unfold) (simp add: skip_ws_def is_ws_def)
  have \<open>scan_once m (Suc d) (''{"inputs": '' @ replicate (Suc d) (CHR 0x5B) @ rest) = Inl RecursionError\<close>
    using po by (simp add: skip_ws_def is_ws_def)
  then show ?thesis by (simp add: json_loads_def skip_ws_def is_ws_def)
qed

lemma text_of_nested:
  "text_of (nested n) = replicate (Suc n) (CHR 0x5B) @ replicate (Suc n) (CHR 0x5D)"
  by (induction n) (simp_all add: replicate_append_same)

lemma json_ok_nested: "n < d \<Longrightarrow> json_ok m d (nested n)"
  by (induction n arbitrary: d) (auto simp: json_ws_def)

lemma decimal_rev_zeros: "decimal_rev (replicate n (CHR ''0'') @ ds) = 10 ^ n * decimal_rev ds"
  by (induction n) (simp_all add: digit_table_def)

lemma decimal_one_zeros: "decimal (CHR ''1'' # replicate n (CHR ''0'')) = 10 ^ n"
  using decimal_rev_zeros [of n "''1''"] by (simp add: decimal_def digit_table_def)

lemma string_value_inputs_key: "string_value inputs_key = ''inputs''"
  by (simp add: string_value_def inputs_key_def)

lemma py_dict_single: "py_dict [(k, v)] = [(k, v)]"
  by (simp add: py_dict_def)

text \<open>
  Claim C2 as stated says that the records come back for every well-formed content of the
  form \<^verbatim>\<open>{"inputs": [...]}\<close>. With the limits of a fresh interpreter, the content whose array
  holds the int of 4301 digits \<^verbatim>\<open>1000...0\<close> makes \<^verbatim>\<open>json.loads\<close> raise \<^verbatim>\<open>ValueError\<close>, and the
  content whose array is 1000 arrays inside one another makes it raise \<^verbatim>\<open>RecursionError\<close>.
  Both texts follow the grammar, and \<^verbatim>\<open>_parse_output\<close> returns no records for them: the
  exception, which its \<^verbatim>\<open>except\<close> clause does not name, reaches the caller.
\<close>

theorem parse_output_limits_counterexample:
  \<open>element_ok 0 3 big_int_doc
   \<and> element_text big_int_doc = ''{"inputs": [1'' @ replicate 4300 (CHR ''0'') @ '']}''
   \<and> element_value big_int_doc = PyDict [(''inputs'', PyList [PyInt (10 ^ 4300)])]
   \<and> parse_output default_interpreter (loan_generator [])
         \<lparr>role = ''assistant'', content = element_text big_int_doc\<rparr> = Inl ValueError
   \<and> element_ok 0 1001 deep_doc
   \<and> element_text deep_doc
       = ''{"inputs": '' @ replicate 1000 (CHR 0x5B) @ replicate 1000 (CHR 0x5D) @ ''}''
   \<and> parse_output default_interpreter (loan_generator [])
         \<lparr>role = ''assistant'', content = element_text deep_doc\<rparr> = Inl RecursionError\<close>
proof (intro conjI)
  show "element_ok 0 3 big_int_doc"
    by (simp add: big_int_doc_def json_ws_def inputs_key_def number_ok_def digits_def digit_table_def
          list_all_iff string_value_def)
  show t1: \<open>element_text big_int_doc = ''{"inputs": [1'' @ replicate 4300 (CHR ''0'') @ '']}''\<close>
    by (simp add: big_int_doc_def inputs_key_def string_text_def number_text_def frac_text_def
          exp_text_def)
  show "element_value big_int_doc = PyDict [(''inputs'', PyList [PyInt (10 ^ 4300)])]"
    unfolding big_int_doc_def
    by (simp only: element_value.simps value_of.simps member_value.simps list.map
          string_value_inputs_key decimal_one_zeros py_dict_single simp_thms if_True if_False)
  have "digits (CHR ''1'' # replicate 4300 (CHR ''0''))"
    by (simp add: digits_def digit_table_def list_all_iff)
  from json_loads_long_int [OF this, of 4300 998]
  have \<open>json_loads \<lparr>recursion_limit = Suc (Suc 998), int_max_str_digits = 4300\<rparr>
          (''{"inputs": [1'' @ replicate 4300 (CHR ''0'') @ '']}'') = Inl ValueError\<close>
    by simp
  then have \<open>json_loads default_interpreter (''{"inputs": [1'' @ replicate 4300 (CHR ''0'') @ '']}'') = Inl ValueError\<close>
    by (simp add: default_interpreter_def)
  then show \<open>parse_output default_interpreter (loan_generator [])
         \<lparr>role = ''assistant'', content = element_text big_int_doc\<rparr> = Inl ValueError\<close>
    by (simp add: t1 parse_output_def wrap_def)
  show "element_ok 0 1001 deep_doc"
    by (simp add: deep_doc_def json_ws_def inputs_key_def string_value_def json_ok_nested)
  show t2: \<open>element_text deep_doc
       = ''{"inputs": '' @ replicate 1000 (CHR 0x5B) @ replicate 1000 (CHR 0x5D) @ ''}''\<close>
    by (simp add: deep_doc_def inputs_key_def string_text_def text_of_nested)
  from json_loads_too_deep [of 999 4300 "replicate 1000 (CHR 0x5D) @ [CHR 0x7D]"]
  have \<open>json_loads \<lparr>recursion_limit = Suc 999, int_max_str_digits = 4300\<rparr>
          (''{"inputs": '' @ replicate (Suc 999) (CHR 0x5B) @ replicate 1000 (CHR 0x5D) @ ''}'') = Inl RecursionError\<close>
    by simp
  then have \<open>json_loads default_interpreter
          (''{"inputs": '' @ replicate 1000 (CHR 0x5B) @ replicate 1000 (CHR 0x5D) @ ''}'') = Inl RecursionError\<close>
    by (simp add: default_interpreter_def)
  then show \<open>parse_output default_interpreter (loan_generator [])
         \<lparr>role = ''assistant'', content = element_text deep_doc\<rparr> = Inl RecursionError\<close>
    by (simp add: t2 parse_output_def wrap_def)
qed

end
